theory Spec2Isabelle
  imports Complex_Main "HOL-Library.AList"
begin

section \<open>JavaScript values of the planner\<close>

text \<open>
  The planner of \<^verbatim>\<open>server/services/ai.js\<close> works on JavaScript \<^verbatim>\<open>Set\<close>s and
  \<^verbatim>\<open>Map\<close>s of vertex and triangle indices. Both iterate in insertion order, and the
  code depends on that order (\<^verbatim>\<open>Array.from(set).find\<close>), so a \<^verbatim>\<open>Set\<close> is a list
  without duplicates and a \<^verbatim>\<open>Map\<close> an association list with distinct keys, both in
  insertion order. \<^verbatim>\<open>Map.get\<close> is \<^const>\<open>map_of\<close> (\<^const>\<open>None\<close> for
  \<^verbatim>\<open>undefined\<close>), \<^verbatim>\<open>Map.set\<close> is \<^const>\<open>AList.update\<close>: an existing key keeps
  its place, a new key goes to the end.

  Method names of the source start with an underscore, which an Isabelle name cannot;
  \<^verbatim>\<open>_computeVertexGraph\<close> is \<open>computeVertexGraph\<close> here, and so on.
\<close>

datatype error = Error string | TypeError | ReferenceError

type_synonym 'a Set = "'a list"
type_synonym ('k, 'v) Map = "('k \<times> 'v) list"

definition Set_add :: "'a \<Rightarrow> 'a Set \<Rightarrow> 'a Set" where
  "Set_add x s = (if x \<in> set s then s else s @ [x])"

definition Map_set :: "'k \<Rightarrow> 'v \<Rightarrow> ('k, 'v) Map \<Rightarrow> ('k, 'v) Map" where
  "Map_set k v m = AList.update k v m"

text \<open>\<^verbatim>\<open>for (let x of xs) { s.add(x); }\<close>\<close>

fun add_each :: "'a list \<Rightarrow> 'a Set \<Rightarrow> 'a Set" where
  "add_each [] s = s"
| "add_each (x # xs) s = add_each xs (Set_add x s)"

text \<open>\<^verbatim>\<open>xs[i]\<close> on an array: \<^verbatim>\<open>undefined\<close> out of range.\<close>

definition index :: "'a list \<Rightarrow> nat \<Rightarrow> 'a option" where
  "index xs i = (if i < length xs then Some (xs ! i) else None)"


section \<open>The dual mappings of the triangulation\<close>

text \<open>
  \<^verbatim>\<open>_setupAi\<close>, lines 68 to 77: the flat array \<^verbatim>\<open>delaunay.triangles\<close> holds three
  vertex indices per triangle; position \<open>i\<close> belongs to triangle \<open>\<lfloor>i / 3\<rfloor>\<close>. The loop
  fills \<^verbatim>\<open>vertexIndexToTriangleIndices\<close> and \<^verbatim>\<open>triangleIndexToVertexIndices\<close>.
\<close>

type_synonym dual = "(nat, nat Set) Map \<times> (nat, nat Set) Map"

definition get_or_new :: "(nat, nat Set) Map \<Rightarrow> nat \<Rightarrow> nat Set" where
  "get_or_new m k = (case map_of m k of None \<Rightarrow> [] | Some s \<Rightarrow> s)"

fun dual_loop :: "nat \<Rightarrow> nat list \<Rightarrow> dual \<Rightarrow> dual" where
  "dual_loop i [] d = d"
| "dual_loop i (vertexIndex # rest) (v2t, t2v) =
     (let triangleIndex = i div 3;
          triangleIndices = Set_add triangleIndex (get_or_new v2t vertexIndex);
          v2t' = Map_set vertexIndex triangleIndices v2t;
          vertexIndices = Set_add vertexIndex (get_or_new t2v triangleIndex);
          t2v' = Map_set triangleIndex vertexIndices t2v
      in dual_loop (Suc i) rest (v2t', t2v'))"

definition dual_mappings :: "nat list \<Rightarrow> dual" where
  "dual_mappings triangles = dual_loop 0 triangles ([], [])"


section \<open>The vertex graph\<close>

text \<open>
  \<^verbatim>\<open>_computeVertexGraph\<close>, lines 110 to 124. \<^verbatim>\<open>triangleIndexToVertexIndices.get\<close> of a
  triangle that the map does not hold is \<^verbatim>\<open>undefined\<close>, and \<^verbatim>\<open>for ... of undefined\<close>
  raises a TypeError. Nothing removes \<^verbatim>\<open>vertexIndex\<close> from \<^verbatim>\<open>otherVertices\<close>.
\<close>

fun otherVertices_loop ::
  "(nat, nat Set) Map \<Rightarrow> nat list \<Rightarrow> nat Set \<Rightarrow> error + nat Set" where
  "otherVertices_loop t2v [] otherVertices = Inr otherVertices"
| "otherVertices_loop t2v (triangleIndex # rest) otherVertices =
     (case map_of t2v triangleIndex of
        None \<Rightarrow> Inl TypeError
      | Some verticesForTriangle \<Rightarrow>
          otherVertices_loop t2v rest (add_each verticesForTriangle otherVertices))"

fun computeVertexGraph_loop ::
  "(nat, nat Set) Map \<Rightarrow> (nat \<times> nat Set) list \<Rightarrow> (nat, nat Set) Map
    \<Rightarrow> error + (nat, nat Set) Map" where
  "computeVertexGraph_loop t2v [] g = Inr g"
| "computeVertexGraph_loop t2v ((vertexIndex, triangleIndices) # rest) g =
     (case otherVertices_loop t2v triangleIndices [] of
        Inl e \<Rightarrow> Inl e
      | Inr otherVertices \<Rightarrow>
          computeVertexGraph_loop t2v rest (Map_set vertexIndex otherVertices g))"

definition computeVertexGraph ::
  "(nat, nat Set) Map \<Rightarrow> (nat, nat Set) Map \<Rightarrow> error + (nat, nat Set) Map" where
  "computeVertexGraph vertexIndexToTriangleIndices triangleIndexToVertexIndices =
     computeVertexGraph_loop triangleIndexToVertexIndices vertexIndexToTriangleIndices []"


section \<open>Carrier loops\<close>

text \<open>
  \<^verbatim>\<open>_computeCarrierLoopsFromGraph\<close>, lines 95 to 108. \<^verbatim>\<open>new Array(n)\<close> makes an array
  of length \<open>n\<close> whose slots are empty, and \<^verbatim>\<open>push\<close> appends behind them; a slot is
  \<^const>\<open>None\<close> here, a pushed descriptor \<^const>\<open>Some\<close>. A star that
  \<^verbatim>\<open>playerStars\<close> does not hold is \<^verbatim>\<open>undefined\<close> in the descriptor.
\<close>

record 'star carrier_loop =
  loop_from :: "'star option"
  loop_to :: "'star option"

fun push_ends ::
  "'star list \<Rightarrow> nat \<Rightarrow> nat list \<Rightarrow> 'star carrier_loop option list
    \<Rightarrow> 'star carrier_loop option list" where
  "push_ends playerStars start [] loops = loops"
| "push_ends playerStars start (end # rest) loops =
     push_ends playerStars start rest
       (loops @ [Some \<lparr>loop_from = index playerStars start, loop_to = index playerStars end\<rparr>])"

fun push_starts ::
  "'star list \<Rightarrow> (nat \<times> nat Set) list \<Rightarrow> 'star carrier_loop option list
    \<Rightarrow> 'star carrier_loop option list" where
  "push_starts playerStars [] loops = loops"
| "push_starts playerStars ((start, ends) # rest) loops =
     push_starts playerStars rest (push_ends playerStars start ends loops)"

definition computeCarrierLoopsFromGraph ::
  "(nat, nat Set) Map \<Rightarrow> 'star list \<Rightarrow> 'star carrier_loop option list" where
  "computeCarrierLoopsFromGraph logisticsGraph playerStars =
     push_starts playerStars logisticsGraph (replicate (length logisticsGraph) None)"

text \<open>The edges of a graph, in iteration order.\<close>

definition edges :: "(nat, nat Set) Map \<Rightarrow> (nat \<times> nat) list" where
  "edges g = concat (map (\<lambda>(start, ends). map (Pair start) ends) g)"

definition descriptor :: "'star list \<Rightarrow> nat \<times> nat \<Rightarrow> 'star carrier_loop" where
  "descriptor playerStars e =
     \<lparr>loop_from = index playerStars (fst e), loop_to = index playerStars (snd e)\<rparr>"


section \<open>Numbers\<close>

text \<open>
  A JavaScript number is a real, an infinity or NaN. The planner divides, and JavaScript
  division never raises: a non-zero number over zero is an infinity, zero over zero is
  NaN, and every comparison with NaN is false. Rounding and the sign of zero are not
  modelled; where a quotient is taken by zero the zero is the positive one, which is what
  a distance (a square root) over a positive range gives.
\<close>

datatype jsnum = Num real | PosInfinity | NegInfinity | NaN

fun js_div :: "jsnum \<Rightarrow> jsnum \<Rightarrow> jsnum" where
  "js_div NaN _ = NaN"
| "js_div _ NaN = NaN"
| "js_div (Num a) (Num b) =
     (if b = 0 then (if a = 0 then NaN else if 0 < a then PosInfinity else NegInfinity)
      else Num (a / b))"
| "js_div (Num a) _ = Num 0"
| "js_div PosInfinity (Num b) = (if 0 \<le> b then PosInfinity else NegInfinity)"
| "js_div NegInfinity (Num b) = (if 0 \<le> b then NegInfinity else PosInfinity)"
| "js_div _ _ = NaN"

fun js_mul :: "jsnum \<Rightarrow> jsnum \<Rightarrow> jsnum" where
  "js_mul NaN _ = NaN"
| "js_mul _ NaN = NaN"
| "js_mul (Num a) (Num b) = Num (a * b)"
| "js_mul (Num a) PosInfinity =
     (if a = 0 then NaN else if 0 < a then PosInfinity else NegInfinity)"
| "js_mul (Num a) NegInfinity =
     (if a = 0 then NaN else if 0 < a then NegInfinity else PosInfinity)"
| "js_mul PosInfinity (Num b) =
     (if b = 0 then NaN else if 0 < b then PosInfinity else NegInfinity)"
| "js_mul NegInfinity (Num b) =
     (if b = 0 then NaN else if 0 < b then NegInfinity else PosInfinity)"
| "js_mul PosInfinity PosInfinity = PosInfinity"
| "js_mul PosInfinity NegInfinity = NegInfinity"
| "js_mul NegInfinity PosInfinity = NegInfinity"
| "js_mul NegInfinity NegInfinity = PosInfinity"

fun js_sub :: "jsnum \<Rightarrow> jsnum \<Rightarrow> jsnum" where
  "js_sub NaN _ = NaN"
| "js_sub _ NaN = NaN"
| "js_sub (Num a) (Num b) = Num (a - b)"
| "js_sub (Num a) PosInfinity = NegInfinity"
| "js_sub (Num a) NegInfinity = PosInfinity"
| "js_sub PosInfinity (Num b) = PosInfinity"
| "js_sub NegInfinity (Num b) = NegInfinity"
| "js_sub PosInfinity PosInfinity = NaN"
| "js_sub PosInfinity NegInfinity = PosInfinity"
| "js_sub NegInfinity PosInfinity = NegInfinity"
| "js_sub NegInfinity NegInfinity = NaN"

fun js_lt :: "jsnum \<Rightarrow> jsnum \<Rightarrow> bool" where
  "js_lt NaN _ = False"
| "js_lt _ NaN = False"
| "js_lt (Num a) (Num b) = (a < b)"
| "js_lt (Num a) PosInfinity = True"
| "js_lt (Num a) NegInfinity = False"
| "js_lt PosInfinity _ = False"
| "js_lt NegInfinity NegInfinity = False"
| "js_lt NegInfinity _ = True"

fun js_le :: "jsnum \<Rightarrow> jsnum \<Rightarrow> bool" where
  "js_le NaN _ = False"
| "js_le _ NaN = False"
| "js_le (Num a) (Num b) = (a \<le> b)"
| "js_le _ PosInfinity = True"
| "js_le NegInfinity _ = True"
| "js_le _ _ = False"

text \<open>\<^verbatim>\<open>Math.max\<close> of two numbers: NaN when one of them is NaN.\<close>

fun Math_max :: "jsnum \<Rightarrow> jsnum \<Rightarrow> jsnum" where
  "Math_max NaN _ = NaN"
| "Math_max _ NaN = NaN"
| "Math_max (Num a) (Num b) = Num (max a b)"
| "Math_max PosInfinity _ = PosInfinity"
| "Math_max _ PosInfinity = PosInfinity"
| "Math_max NegInfinity b = b"
| "Math_max a NegInfinity = a"

fun Math_floor :: "jsnum \<Rightarrow> jsnum" where
  "Math_floor (Num a) = Num (of_int \<lfloor>a\<rfloor>)"
| "Math_floor a = a"

text \<open>A number as a condition: zero and NaN are falsy.\<close>

fun truthy_number :: "jsnum \<Rightarrow> bool" where
  "truthy_number (Num a) = (a \<noteq> 0)"
| "truthy_number NaN = False"
| "truthy_number _ = True"

text \<open>
  ToNumber of a value that may be \<^verbatim>\<open>undefined\<close>: \<^verbatim>\<open>undefined\<close> is NaN. A field
  that holds a number or nothing is a \<^typ>\<open>jsnum option\<close>.
\<close>

fun ToNumber :: "jsnum option \<Rightarrow> jsnum" where
  "ToNumber None = NaN"
| "ToNumber (Some a) = a"

fun truthy_field :: "jsnum option \<Rightarrow> bool" where
  "truthy_field None = False"
| "truthy_field (Some a) = truthy_number a"


fun to_number :: "real option \<Rightarrow> jsnum" where
  "to_number None = NaN"
| "to_number (Some r) = Num r"

text \<open>\<^verbatim>\<open>Number.MAX_VALUE\<close>, the largest finite double.\<close>

definition MAX_VALUE :: jsnum where
  "MAX_VALUE = Num ((2 - 1 / 2 ^ 52) * 2 ^ 1023)"


section \<open>The game, as the planner reads it\<close>

text \<open>
  Identifiers (\<^verbatim>\<open>player._id\<close>, \<^verbatim>\<open>star.ownedByPlayerId\<close>) are natural numbers
  compared by value; an unowned star has no owner. Of a game only the fields that
  \<^verbatim>\<open>ai.js\<close> reads are kept.
\<close>

record location =
  loc_x :: real
  loc_y :: real

record star =
  star_location :: location
  ownedByPlayerId :: "nat option"

record player =
  player_id :: nat
  defeated :: bool
  ai :: bool
  credits :: "jsnum option"
  researchingNext :: string
  hyperspace_level :: real

record game =
  galaxy_players :: "player list"
  galaxy_stars :: "star list"
  lightYear :: real
  state_tick :: nat
  productionTicks :: nat


section \<open>The distance service\<close>

text \<open>\<^verbatim>\<open>server/services/distance.js\<close>: the three methods the planner calls.\<close>

definition getDistanceSquaredBetweenLocations :: "location \<Rightarrow> location \<Rightarrow> real" where
  "getDistanceSquaredBetweenLocations loc1 loc2 =
     (let xs = loc_x loc2 - loc_x loc1;
          ys = loc_y loc2 - loc_y loc1;
          xs = xs * xs;
          ys = ys * ys
      in xs + ys)"

definition getDistanceBetweenLocations :: "location \<Rightarrow> location \<Rightarrow> real" where
  "getDistanceBetweenLocations loc1 loc2 = sqrt (getDistanceSquaredBetweenLocations loc1 loc2)"

text \<open>
  \<^verbatim>\<open>(hyperspace || 1)\<close>: \<^verbatim>\<open>undefined\<close> and \<open>0\<close> are falsy.
\<close>

definition or_one :: "real option \<Rightarrow> real" where
  "or_one h = (case h of None \<Rightarrow> 1 | Some l \<Rightarrow> if l = 0 then 1 else l)"

definition getHyperspaceDistance :: "game \<Rightarrow> real option \<Rightarrow> real" where
  "getHyperspaceDistance g hyperspace = (or_one hyperspace + 1.5) * lightYear g"


section \<open>The service object and the free identifiers\<close>

text \<open>
  The constructor stores three of its four arguments. Its last statement is
  \<^verbatim>\<open>this.distanceService;\<close>, an expression without an assignment, so the field is
  \<^verbatim>\<open>undefined\<close> until somebody assigns it from outside. \<^verbatim>\<open>upgradeBulk\<close> is the one
  method of \<^verbatim>\<open>starUpgradeService\<close> that \<^verbatim>\<open>ai.js\<close> calls; it is not part of the
  sources and may do anything to the game and the player, and may throw. The carrier
  service and the star service are used by \<^verbatim>\<open>_setupAi\<close> only and have no field here.
\<close>

datatype DistanceService = DistanceService

type_synonym 'a effect = "game \<times> player \<Rightarrow> (game \<times> player) \<times> 'a"

record AIService =
  upgradeBulk :: "string \<Rightarrow> string \<Rightarrow> jsnum \<Rightarrow> bool \<Rightarrow> (error option) effect"
  distanceService :: "DistanceService option"

definition constructor ::
  "(string \<Rightarrow> string \<Rightarrow> jsnum \<Rightarrow> bool \<Rightarrow> (error option) effect) \<Rightarrow> 'c \<Rightarrow> 's \<Rightarrow> DistanceService
    \<Rightarrow> AIService" where
  "constructor starUpgradeService carrierService starService distanceService' =
     \<lparr>upgradeBulk = starUpgradeService, distanceService = None\<rparr>"

text \<open>
  Four identifiers of \<^verbatim>\<open>ai.js\<close> are declared nowhere in the module: \<^verbatim>\<open>minBy\<close> and
  \<^verbatim>\<open>player\<close> in \<^verbatim>\<open>_computeBorderStarQueue\<close>, \<^verbatim>\<open>borderVertices\<close> and \<^verbatim>\<open>score\<close> in
  \<^verbatim>\<open>_createLogisticsGraph\<close>. A class body is strict code: reading such an identifier
  raises a ReferenceError unless a global of that name exists. The globals are a
  parameter of the model; \<^const>\<open>None\<close> (for \<^verbatim>\<open>minBy\<close>: \<^const>\<open>False\<close>) is an
  identifier that is not bound, as in the module on its own.

  A member of the unmarked set is a vertex index or an entry \<^verbatim>\<open>[key, value]\<close> of the
  vertex graph.
\<close>

datatype elem = Idx nat | Entry nat "nat Set"

record globals =
  g_minBy :: bool
  g_player :: "player option"
  g_borderVertices :: "elem Set option"
  g_score :: "jsnum option"

definition no_globals :: globals where
  "no_globals = \<lparr>g_minBy = False, g_player = None, g_borderVertices = None, g_score = None\<rparr>"


section \<open>The border star queue\<close>

text \<open>
  \<^verbatim>\<open>qheap\<close> is a package outside the repository. Its heap is configured by the
  comparator of lines 179 and 180: \<^verbatim>\<open>comparBefore(a, b)\<close> says that \<open>a\<close> is
  ordered before \<open>b\<close>, \<^verbatim>\<open>compar(a, b) < 0\<close> says the same, and \<^verbatim>\<open>dequeue\<close>
  removes and returns the item that is ordered first, \<^verbatim>\<open>undefined\<close> on an empty heap.
  The heap is the list of the items it holds; the item ordered first is found by a scan
  that keeps the best item so far and replaces it only by one that is before it. Which
  of several items that the comparator does not order comes first is the package's
  matter; no statement below depends on it.
\<close>

record entry =
  score :: jsnum
  vertex :: nat

definition comparBefore :: "entry \<Rightarrow> entry \<Rightarrow> bool" where
  "comparBefore b1 b2 = js_lt (score b1) (score b2)"

definition compar :: "entry \<Rightarrow> entry \<Rightarrow> jsnum" where
  "compar b1 b2 = js_sub (score b1) (score b2)"

type_synonym Heap = "entry list"

definition Heap_insert :: "entry \<Rightarrow> Heap \<Rightarrow> Heap" where
  "Heap_insert e h = h @ [e]"

fun ordered_first :: "entry \<Rightarrow> entry list \<Rightarrow> entry" where
  "ordered_first best [] = best"
| "ordered_first best (e # es) = ordered_first (if comparBefore e best then e else best) es"

definition Heap_dequeue :: "Heap \<Rightarrow> (entry \<times> Heap) option" where
  "Heap_dequeue h =
     (case h of
        [] \<Rightarrow> None
      | e # es \<Rightarrow> (let item = ordered_first e es in Some (item, remove1 item h)))"

text \<open>
  Modelled from the spec: \<^verbatim>\<open>maxBy\<close> of \<^verbatim>\<open>server/utils.js\<close>, a file that is not among
  the sources. The spec takes the range from "the highest relevant research/tech level
  present in the game"; without players there is no level (\<^verbatim>\<open>undefined\<close>).
\<close>

fun maxBy :: "('a \<Rightarrow> real) \<Rightarrow> 'a list \<Rightarrow> real option" where
  "maxBy f [] = None"
| "maxBy f (x # xs) = Some (fold (\<lambda>y m. max (f y) m) xs (f x))"

text \<open>
  Modelled from the spec: \<^verbatim>\<open>minBy\<close>, which \<^verbatim>\<open>ai.js\<close> calls but neither defines nor
  imports. The spec reads its result as the "distance to the nearest hostile point" and
  calls the nearest hostile distance "undefined" when the hostile set is empty.
\<close>

fun minBy :: "('a \<Rightarrow> real) \<Rightarrow> 'a list \<Rightarrow> real option" where
  "minBy f [] = None"
| "minBy f (x # xs) = Some (fold (\<lambda>y m. min (f y) m) xs (f x))"

text \<open>
  Line 177: \<^verbatim>\<open>star.ownedByPlayerId && star.ownedByPlayerId !== player._id\<close>. The
  right operand, and with it the free identifier \<^verbatim>\<open>player\<close>, is evaluated only for a
  star that has an owner.
\<close>

fun enemyStars_filter :: "globals \<Rightarrow> star list \<Rightarrow> error + star list" where
  "enemyStars_filter G [] = Inr []"
| "enemyStars_filter G (s # rest) =
     (case ownedByPlayerId s of
        None \<Rightarrow> enemyStars_filter G rest
      | Some owner \<Rightarrow>
          (case g_player G of
             None \<Rightarrow> Inl ReferenceError
           | Some p \<Rightarrow>
               (case enemyStars_filter G rest of
                  Inl e \<Rightarrow> Inl e
                | Inr r \<Rightarrow> Inr (if owner \<noteq> player_id p then s # r else r))))"

text \<open>
  Line 185. The callee \<^verbatim>\<open>minBy\<close> is looked up first. The callback reads
  \<^verbatim>\<open>borderStar.location\<close>, a TypeError when \<^verbatim>\<open>playerStars\<close> has no star at the
  index; it runs once for each enemy star, so not at all when there is none.
\<close>

fun distances_to :: "star option \<Rightarrow> star list \<Rightarrow> error + real list" where
  "distances_to borderStar [] = Inr []"
| "distances_to borderStar (es # rest) =
     (case borderStar of
        None \<Rightarrow> Inl TypeError
      | Some bs \<Rightarrow>
          (case distances_to borderStar rest of
             Inl e \<Rightarrow> Inl e
           | Inr ds \<Rightarrow>
               Inr (getDistanceBetweenLocations (star_location es) (star_location bs) # ds)))"

definition distanceToClosestEnemyStar ::
  "globals \<Rightarrow> star list \<Rightarrow> star option \<Rightarrow> error + real option" where
  "distanceToClosestEnemyStar G enemyStars borderStar =
     (if \<not> g_minBy G then Inl ReferenceError
      else (case distances_to borderStar enemyStars of
              Inl e \<Rightarrow> Inl e
            | Inr ds \<Rightarrow> Inr (minBy (\<lambda>d. d) ds)))"

fun borderStarQueue_loop ::
  "globals \<Rightarrow> real \<Rightarrow> star list \<Rightarrow> star list \<Rightarrow> nat list \<Rightarrow> Heap \<Rightarrow> error + Heap" where
  "borderStarQueue_loop G highestHyperspaceDistance enemyStars playerStars [] borderStarQueue =
     Inr borderStarQueue"
| "borderStarQueue_loop G highestHyperspaceDistance enemyStars playerStars (borderVertex # rest)
       borderStarQueue =
     (let borderStar = index playerStars borderVertex in
      case distanceToClosestEnemyStar G enemyStars borderStar of
        Inl e \<Rightarrow> Inl e
      | Inr distanceToClosesEnemyStar \<Rightarrow>
          (let distanceRelative =
                 js_div (to_number distanceToClosesEnemyStar) (Num highestHyperspaceDistance)
           in if js_lt distanceRelative (Num 2.5)
              then (let score = js_div (Num 1) distanceRelative
                    in borderStarQueue_loop G highestHyperspaceDistance enemyStars playerStars rest
                         (Heap_insert \<lparr>score = score, vertex = borderVertex\<rparr> borderStarQueue))
              else borderStarQueue_loop G highestHyperspaceDistance enemyStars playerStars rest
                     borderStarQueue))"

definition computeBorderStarQueue ::
  "AIService \<Rightarrow> globals \<Rightarrow> game \<Rightarrow> nat Set \<Rightarrow> star list \<Rightarrow> error + Heap" where
  "computeBorderStarQueue this G g borderVertices playerStars =
     (let highestHyperspaceLevel = maxBy hyperspace_level (galaxy_players g) in
      case distanceService this of
        None \<Rightarrow> Inl TypeError
      | Some ds \<Rightarrow>
          (let highestHyperspaceDistance = getHyperspaceDistance g highestHyperspaceLevel in
           case enemyStars_filter G (galaxy_stars g) of
             Inl e \<Rightarrow> Inl e
           | Inr enemyStars \<Rightarrow>
               borderStarQueue_loop G highestHyperspaceDistance enemyStars playerStars
                 borderVertices []))"


section \<open>Border vertices\<close>

text \<open>
  Modelled from the spec: \<^verbatim>\<open>intersectionOfSets\<close> of \<^verbatim>\<open>server/utils.js\<close>; the spec
  counts the points a candidate "shares" with a triangle.
\<close>

definition intersectionOfSets :: "nat Set \<Rightarrow> nat Set \<Rightarrow> nat Set" where
  "intersectionOfSets a b = filter (\<lambda>x. x \<in> set b) a"

text \<open>
  \<^verbatim>\<open>_computeBorderVertices\<close>, lines 126 to 171. Lines 133 to 139 collect the
  candidates of a triangle: every triangle registered for one of its vertices, the
  triangle itself among them.
\<close>

fun triangleCandidates_loop ::
  "(nat, nat Set) Map \<Rightarrow> nat list \<Rightarrow> nat Set \<Rightarrow> error + nat Set" where
  "triangleCandidates_loop v2t [] triangleCandidates = Inr triangleCandidates"
| "triangleCandidates_loop v2t (vertexIndex # rest) triangleCandidates =
     (case map_of v2t vertexIndex of
        None \<Rightarrow> Inl TypeError
      | Some trianglesForVertex \<Rightarrow>
          triangleCandidates_loop v2t rest (add_each trianglesForVertex triangleCandidates))"

text \<open>Lines 141 to 147, the \<^verbatim>\<open>map\<close> over the candidates.\<close>

fun sharedVertices_map ::
  "(nat, nat Set) Map \<Rightarrow> nat Set \<Rightarrow> nat list \<Rightarrow> error + (nat Set \<times> nat) list" where
  "sharedVertices_map t2v vertexIndices [] = Inr []"
| "sharedVertices_map t2v vertexIndices (triangleCandidate # rest) =
     (case map_of t2v triangleCandidate of
        None \<Rightarrow> Inl TypeError
      | Some verticesOfCandidate \<Rightarrow>
          (case sharedVertices_map t2v vertexIndices rest of
             Inl e \<Rightarrow> Inl e
           | Inr r \<Rightarrow>
               Inr ((intersectionOfSets verticesOfCandidate vertexIndices, triangleCandidate) # r)))"

text \<open>Line 148, the \<^verbatim>\<open>filter\<close>: the candidates that share exactly two vertices.\<close>

definition trianglesWithTwoSharedVertices ::
  "(nat, nat Set) Map \<Rightarrow> nat Set \<Rightarrow> nat Set \<Rightarrow> error + (nat Set \<times> nat) list" where
  "trianglesWithTwoSharedVertices t2v vertexIndices triangleCandidates =
     (case sharedVertices_map t2v vertexIndices triangleCandidates of
        Inl e \<Rightarrow> Inl e
      | Inr cands \<Rightarrow> Inr (filter (\<lambda>cand. length (fst cand) = 2) cands))"

text \<open>
  The first loop, lines 131 to 154; the state is \<^verbatim>\<open>borderTriangles\<close> and
  \<^verbatim>\<open>borderTrianglesToTrianglesWithSharedVertices\<close>.
\<close>

fun borderTriangles_loop ::
  "(nat, nat Set) Map \<Rightarrow> (nat, nat Set) Map \<Rightarrow> (nat \<times> nat Set) list
    \<Rightarrow> nat Set \<times> (nat, nat Set) Map \<Rightarrow> error + nat Set \<times> (nat, nat Set) Map" where
  "borderTriangles_loop t2v v2t [] st = Inr st"
| "borderTriangles_loop t2v v2t ((triangleIndex, vertexIndices) # rest) (borderTriangles, m) =
     (case triangleCandidates_loop v2t vertexIndices [] of
        Inl e \<Rightarrow> Inl e
      | Inr triangleCandidates \<Rightarrow>
          (case trianglesWithTwoSharedVertices t2v vertexIndices triangleCandidates of
             Inl e \<Rightarrow> Inl e
           | Inr two \<Rightarrow>
               if length two < 3
               then borderTriangles_loop t2v v2t rest
                      (Set_add triangleIndex borderTriangles,
                       Map_set triangleIndex triangleCandidates m)
               else borderTriangles_loop t2v v2t rest (borderTriangles, m)))"

definition borderTriangles ::
  "(nat, nat Set) Map \<Rightarrow> (nat, nat Set) Map \<Rightarrow> error + nat Set \<times> (nat, nat Set) Map" where
  "borderTriangles t2v v2t = borderTriangles_loop t2v v2t t2v ([], [])"

text \<open>The second loop, lines 158 to 168.\<close>

fun commonVertices_loop ::
  "(nat, nat Set) Map \<Rightarrow> nat \<Rightarrow> nat list \<Rightarrow> nat Set \<Rightarrow> error + nat Set" where
  "commonVertices_loop t2v borderTriangle [] borderVertices = Inr borderVertices"
| "commonVertices_loop t2v borderTriangle (sharedBorderTriangle # rest) borderVertices =
     (case (map_of t2v borderTriangle, map_of t2v sharedBorderTriangle) of
        (Some a, Some b) \<Rightarrow>
          commonVertices_loop t2v borderTriangle rest
            (add_each (intersectionOfSets a b) borderVertices)
      | _ \<Rightarrow> Inl TypeError)"

fun borderVertices_loop ::
  "(nat, nat Set) Map \<Rightarrow> nat Set \<Rightarrow> (nat, nat Set) Map \<Rightarrow> nat list \<Rightarrow> nat Set
    \<Rightarrow> error + nat Set" where
  "borderVertices_loop t2v bts m [] borderVertices = Inr borderVertices"
| "borderVertices_loop t2v bts m (borderTriangle # rest) borderVertices =
     (case map_of m borderTriangle of
        None \<Rightarrow> Inl TypeError
      | Some trianglesWithSharedVertices \<Rightarrow>
          (let sharedBorderTriangles = filter (\<lambda>tr. tr \<in> set bts) trianglesWithSharedVertices in
           case commonVertices_loop t2v borderTriangle sharedBorderTriangles borderVertices of
             Inl e \<Rightarrow> Inl e
           | Inr borderVertices' \<Rightarrow> borderVertices_loop t2v bts m rest borderVertices'))"

definition computeBorderVertices ::
  "(nat, nat Set) Map \<Rightarrow> (nat, nat Set) Map \<Rightarrow> error + nat Set" where
  "computeBorderVertices triangleIndexToVertexIndices vertexIndexToTriangleIndices =
     (case borderTriangles triangleIndexToVertexIndices vertexIndexToTriangleIndices of
        Inl e \<Rightarrow> Inl e
      | Inr (bts, m) \<Rightarrow> borderVertices_loop triangleIndexToVertexIndices bts m bts [])"

text \<open>
  A triangulation, as far as the border detector depends on it: the triangles are
  numbered once each, a triangle has three different vertices, and an edge (two
  vertices of a triangle) lies in at most two triangles.
\<close>

definition triangles_with_edge :: "(nat, nat Set) Map \<Rightarrow> nat \<Rightarrow> nat \<Rightarrow> (nat \<times> nat Set) list" where
  "triangles_with_edge t2v a b = filter (\<lambda>tv. a \<in> set (snd tv) \<and> b \<in> set (snd tv)) t2v"

definition triangle_ok :: "(nat, nat Set) Map \<Rightarrow> nat Set \<Rightarrow> bool" where
  "triangle_ok t2v vs =
     (distinct vs \<and> length vs = 3 \<and>
      list_all (\<lambda>a. list_all (\<lambda>b. a = b \<or> length (triangles_with_edge t2v a b) \<le> 2) vs) vs)"

definition triangulation :: "(nat, nat Set) Map \<Rightarrow> bool" where
  "triangulation t2v = (distinct (map fst t2v) \<and> list_all (\<lambda>tv. triangle_ok t2v (snd tv)) t2v)"

text \<open>
  The two mappings are dual: a triangle is registered for each of its vertices, and a
  vertex belongs to each of the triangles registered for it.
\<close>

definition registered :: "(nat, nat Set) Map \<Rightarrow> nat \<Rightarrow> nat \<Rightarrow> bool" where
  "registered m k x = (case map_of m k of None \<Rightarrow> False | Some xs \<Rightarrow> x \<in> set xs)"

definition dual_ok :: "(nat, nat Set) Map \<Rightarrow> (nat, nat Set) Map \<Rightarrow> bool" where
  "dual_ok t2v v2t =
     (list_all (\<lambda>tv. list_all (\<lambda>v. registered v2t v (fst tv)) (snd tv)) t2v \<and>
      list_all (\<lambda>vt. list_all (\<lambda>t. registered t2v t (fst vt)) (snd vt)) v2t)"

definition rel_of :: "(nat, nat Set) Map \<Rightarrow> (nat \<times> nat) set" where
  "rel_of m = {(k, x). registered m k x}"

text \<open>
  The spec's words for the border detector, not the code's: the candidates of a triangle
  T are the triangles that share at least one point with T, T itself excluded; a
  candidate shares an edge with T if it shares exactly 2 points with T; T is a boundary
  triangle if fewer than 3 candidates share an edge with it.
\<close>

definition spec_candidates :: "(nat, nat Set) Map \<Rightarrow> nat \<Rightarrow> nat Set \<Rightarrow> (nat \<times> nat Set) list" where
  "spec_candidates t2v t vs = filter (\<lambda>cv. fst cv \<noteq> t \<and> set (snd cv) \<inter> set vs \<noteq> {}) t2v"

definition spec_edge_neighbours :: "(nat, nat Set) Map \<Rightarrow> nat \<Rightarrow> nat Set \<Rightarrow> nat list" where
  "spec_edge_neighbours t2v t vs =
     map fst (filter (\<lambda>cv. card (set (snd cv) \<inter> set vs) = 2) (spec_candidates t2v t vs))"

definition spec_boundary_triangle :: "(nat, nat Set) Map \<Rightarrow> nat \<Rightarrow> nat Set \<Rightarrow> bool" where
  "spec_boundary_triangle t2v t vs = (length (spec_edge_neighbours t2v t vs) < 3)"


section \<open>The logistics graph\<close>

text \<open>
  \<^verbatim>\<open>Set.has\<close> compares by identity where the value is an array. The entry arrays
  \<^verbatim>\<open>[key, value]\<close> that the iterator of a \<^verbatim>\<open>Map\<close> hands out are made anew at each
  step, so no set holds the one that is asked for, and \<^verbatim>\<open>add\<close> of such an array
  always adds.
\<close>

fun Set_has :: "elem Set \<Rightarrow> elem \<Rightarrow> bool" where
  "Set_has s (Idx v) = (Idx v \<in> set s)"
| "Set_has s (Entry k vs) = False"

definition Set_delete :: "elem \<Rightarrow> elem Set \<Rightarrow> elem Set" where
  "Set_delete x s = removeAll x s"

text \<open>
  Lines 202 to 207. \<^verbatim>\<open>for (let vertexIndex of vertexIndexToConnectedVertexIndices)\<close>
  iterates a \<^verbatim>\<open>Map\<close>, so \<^verbatim>\<open>vertexIndex\<close> is an entry \<^verbatim>\<open>[key, value]\<close>;
  \<^verbatim>\<open>borderVertices\<close> is a free identifier of the method.
\<close>

fun unmarkedVertices_loop ::
  "globals \<Rightarrow> (nat \<times> nat Set) list \<Rightarrow> elem Set \<Rightarrow> error + elem Set" where
  "unmarkedVertices_loop G [] unmarkedVertices = Inr unmarkedVertices"
| "unmarkedVertices_loop G ((k, vs) # rest) unmarkedVertices =
     (case g_borderVertices G of
        None \<Rightarrow> Inl ReferenceError
      | Some borderVertices \<Rightarrow>
          if \<not> Set_has borderVertices (Entry k vs)
          then unmarkedVertices_loop G rest (unmarkedVertices @ [Entry k vs])
          else unmarkedVertices_loop G rest unmarkedVertices)"

text \<open>\<^verbatim>\<open>if (direct)\<close>: \<^verbatim>\<open>undefined\<close> and the index \<open>0\<close> are falsy.\<close>

definition truthy :: "nat option \<Rightarrow> nat option" where
  "truthy d = (case d of None \<Rightarrow> None | Some v \<Rightarrow> if v = 0 then None else Some v)"

text \<open>
  \<^verbatim>\<open>_findNextLogisticsConnection\<close>, lines 229 to 247. The method calls itself for
  every vertex the logistics graph connects to the starting vertex and keeps no record
  of the vertices it has visited. The first argument bounds the depth of the calls;
  \<^const>\<open>None\<close> is a search that needs a deeper stack. The result is the connection
  (\<^verbatim>\<open>null\<close> is \<^const>\<open>None\<close>) and the unmarked set, from which a claimed vertex is
  deleted. \<^verbatim>\<open>Array.from(undefined)\<close> and \<^verbatim>\<open>for ... of undefined\<close> raise a TypeError.
\<close>

type_synonym connection = "nat \<times> nat"

fun findNextLogisticsConnection ::
  "nat \<Rightarrow> (nat, nat Set) Map \<Rightarrow> (nat, nat Set) Map \<Rightarrow> elem Set \<Rightarrow> nat
    \<Rightarrow> (error + connection option \<times> elem Set) option"
and findNext_connected ::
  "nat \<Rightarrow> (nat, nat Set) Map \<Rightarrow> (nat, nat Set) Map \<Rightarrow> elem Set \<Rightarrow> nat list
    \<Rightarrow> (error + connection option \<times> elem Set) option" where
  "findNextLogisticsConnection 0 V L U startingVertex = None"
| "findNextLogisticsConnection (Suc n) V L U startingVertex =
     (case map_of V startingVertex of
        None \<Rightarrow> Some (Inl TypeError)
      | Some possibleConnections \<Rightarrow>
          (case truthy (find (\<lambda>v. Set_has U (Idx v)) possibleConnections) of
             Some direct \<Rightarrow>
               Some (Inr (Some (startingVertex, direct), Set_delete (Idx direct) U))
           | None \<Rightarrow>
               (case map_of L startingVertex of
                  None \<Rightarrow> Some (Inl TypeError)
                | Some cs \<Rightarrow> findNext_connected n V L U cs)))"
| "findNext_connected n V L U [] = Some (Inr (None, U))"
| "findNext_connected n V L U (c # cs) =
     (case findNextLogisticsConnection n V L U c of
        None \<Rightarrow> None
      | Some (Inl e) \<Rightarrow> Some (Inl e)
      | Some (Inr (Some newConnection, U')) \<Rightarrow> Some (Inr (Some newConnection, U'))
      | Some (Inr (None, U')) \<Rightarrow> findNext_connected n V L U' cs)"

text \<open>Lines 216 to 218.\<close>

definition add_connection :: "connection \<Rightarrow> (nat, nat Set) Map \<Rightarrow> (nat, nat Set) Map" where
  "add_connection nextConnection logisticsGraph =
     (let fromConnections = get_or_new logisticsGraph (fst nextConnection)
      in Map_set (fst nextConnection) (Set_add (snd nextConnection) fromConnections)
           logisticsGraph)"

text \<open>Taking an entry out of the heap shortens it.\<close>

lemma ordered_first_in: "ordered_first best es \<in> set (best # es)"
  by (induction es arbitrary: best) auto

lemma Heap_dequeue_length:
  assumes "Heap_dequeue Q = Some (item, Q')"
  shows "Suc (length Q') = length Q"
proof (cases Q)
  case Nil
  with assms show ?thesis by (simp add: Heap_dequeue_def)
next
  case (Cons e es)
  with assms have i: "item = ordered_first e es" and q: "Q' = remove1 item Q"
    by (auto simp: Heap_dequeue_def Let_def)
  from i Cons have "item \<in> set Q" using ordered_first_in [of e es] by simp
  moreover from this have "0 < length Q" by (cases Q) auto
  ultimately show ?thesis using q by (simp add: length_remove1)
qed

text \<open>A search that finds nothing leaves the unmarked set; one that finds takes a member.\<close>

lemma findNext_unmarked:
  "(findNextLogisticsConnection n V L U s = Some (Inr (r, U')) \<longrightarrow>
      (case r of None \<Rightarrow> U' = U | Some c \<Rightarrow> length U' < length U))"
  "(findNext_connected n V L U cs = Some (Inr (r, U')) \<longrightarrow>
      (case r of None \<Rightarrow> U' = U | Some c \<Rightarrow> length U' < length U))"
proof (induction n V L U s and n V L U cs arbitrary: r U' and r U'
    rule: findNextLogisticsConnection_findNext_connected.induct)
  case (1 V L U startingVertex)
  then show ?case by simp
next
  case (2 n V L U startingVertex)
  show ?case
  proof (cases "map_of V startingVertex")
    case None
    then show ?thesis by simp
  next
    case (Some possibleConnections)
    show ?thesis
    proof (cases "truthy (find (\<lambda>v. Set_has U (Idx v)) possibleConnections)")
      case None
      show ?thesis
      proof (cases "map_of L startingVertex")
        case None
        with \<open>map_of V startingVertex = Some possibleConnections\<close>
          \<open>truthy (find (\<lambda>v. Set_has U (Idx v)) possibleConnections) = None\<close>
        show ?thesis by simp
      next
        case (Some cs)
        from 2 [OF \<open>map_of V startingVertex = Some possibleConnections\<close>
            \<open>truthy (find (\<lambda>v. Set_has U (Idx v)) possibleConnections) = None\<close> Some,
            of r U']
          \<open>map_of V startingVertex = Some possibleConnections\<close>
          \<open>truthy (find (\<lambda>v. Set_has U (Idx v)) possibleConnections) = None\<close> Some
        show ?thesis by simp
      qed
    next
      case (Some direct)
      then have "find (\<lambda>v. Set_has U (Idx v)) possibleConnections = Some direct"
        by (auto simp: truthy_def split: option.splits if_splits)
      then have "Idx direct \<in> set U"
        by (auto simp: find_Some_iff)
      then have "length (Set_delete (Idx direct) U) < length U"
        unfolding Set_delete_def by (simp add: length_removeAll_less)
      with Some \<open>map_of V startingVertex = Some possibleConnections\<close> show ?thesis
        by auto
    qed
  qed
next
  case (3 n V L U)
  then show ?case by simp
next
  case (4 n V L U c cs)
  show ?case
  proof (cases "findNextLogisticsConnection n V L U c")
    case None
    then show ?thesis by simp
  next
    case (Some res)
    show ?thesis
    proof (cases res)
      case (Inl e)
      with Some show ?thesis by simp
    next
      case (Inr pr)
      obtain r1 U1 where pr: "pr = (r1, U1)" by (cases pr)
      show ?thesis
      proof (cases r1)
        case None
        with Some Inr pr 4(1) [of None U1] have u: "U1 = U" by simp
        have "findNext_connected n V L U cs = Some (Inr (r, U')) \<longrightarrow>
            (case r of None \<Rightarrow> U' = U | Some c \<Rightarrow> length U' < length U)"
          using 4(2) [OF Some Inr pr [symmetric] None, of r U'] unfolding u .
        moreover have "findNextLogisticsConnection n V L U c = Some (Inr (None, U))"
          using Some Inr pr None u by simp
        ultimately show ?thesis by simp
      next
        case (Some c1)
        with \<open>findNextLogisticsConnection n V L U c = Some res\<close> Inr pr
          4(1) [of "Some c1" U1]
        show ?thesis by auto
      qed
    qed
  qed
qed

text \<open>
  One pass of the loop, lines 211 to 223, on the unmarked set, the logistics graph and
  the queue. \<^verbatim>\<open>const oldScore = score;\<close> reads the free identifier \<^verbatim>\<open>score\<close>,
  not a field of the dequeued item.
\<close>

type_synonym logistics_state = "elem Set \<times> (nat, nat Set) Map \<times> Heap"

definition logistics_pass ::
  "nat \<Rightarrow> globals \<Rightarrow> (nat, nat Set) Map \<Rightarrow> logistics_state
    \<Rightarrow> (error + logistics_state) option" where
  "logistics_pass n G V st =
     (case st of (unmarkedVertices, logisticsGraph, borderStarQueue) \<Rightarrow>
        (case Heap_dequeue borderStarQueue of
           None \<Rightarrow> Some (Inl TypeError)
         | Some (item, queue') \<Rightarrow>
             (let borderVertex = vertex item in
              case g_score G of
                None \<Rightarrow> Some (Inl ReferenceError)
              | Some oldScore \<Rightarrow>
                  (case findNextLogisticsConnection n V logisticsGraph unmarkedVertices
                          borderVertex of
                     None \<Rightarrow> None
                   | Some (Inl e) \<Rightarrow> Some (Inl e)
                   | Some (Inr (None, unmarked')) \<Rightarrow>
                       Some (Inr (unmarked', logisticsGraph, queue'))
                   | Some (Inr (Some nextConnection, unmarked')) \<Rightarrow>
                       Some (Inr (unmarked', add_connection nextConnection logisticsGraph,
                                  Heap_insert \<lparr>score = js_mul oldScore (Num 0.5),
                                               vertex = borderVertex\<rparr> queue'))))))"

text \<open>
  What a pass that completes does: it takes the entry that \<^verbatim>\<open>dequeue\<close> returns, and
  either drops it and leaves the unmarked set and the graph, or shortens the unmarked
  set and puts the vertex back with half of \<^verbatim>\<open>score\<close>.
\<close>

lemma logistics_pass_outcome:
  assumes "logistics_pass n G V (U, L, Q) = Some (Inr (U', L', Q'))"
  shows "\<exists>item Q0 oldScore. Heap_dequeue Q = Some (item, Q0) \<and> g_score G = Some oldScore \<and>
           ((U' = U \<and> L' = L \<and> Q' = Q0) \<or>
            (length U' < length U \<and>
             Q' = Heap_insert \<lparr>score = js_mul oldScore (Num 0.5), vertex = vertex item\<rparr> Q0))"
proof -
  from assms obtain item Q0 where d: "Heap_dequeue Q = Some (item, Q0)"
    by (auto simp: logistics_pass_def split: option.splits)
  from assms d obtain oldScore where sc: "g_score G = Some oldScore"
    by (auto simp: logistics_pass_def Let_def split: option.splits)
  from assms d sc obtain r U1 where
    f: "findNextLogisticsConnection n V L U (vertex item) = Some (Inr (r, U1))"
    by (auto simp: logistics_pass_def Let_def split: option.splits sum.splits)
  show ?thesis
  proof (cases r)
    case None
    with findNext_unmarked(1) [of n V L U "vertex item" None U1] f have "U1 = U" by simp
    with assms d sc f None show ?thesis by (simp add: logistics_pass_def Let_def)
  next
    case (Some c)
    with findNext_unmarked(1) [of n V L U "vertex item" "Some c" U1] f
    have "length U1 < length U" by simp
    with assms d sc f Some show ?thesis by (auto simp: logistics_pass_def Let_def)
  qed
qed

lemma logistics_pass_decreases:
  assumes "logistics_pass n G V (U, L, Q) = Some (Inr (U', L', Q'))"
  shows "length U' < length U \<or> (length U' = length U \<and> length Q' < length Q)"
proof -
  from logistics_pass_outcome [OF assms] obtain item Q0 where
    "Heap_dequeue Q = Some (item, Q0)" and "(U' = U \<and> Q' = Q0) \<or> length U' < length U"
    by blast
  with Heap_dequeue_length [of Q item Q0] show ?thesis by auto
qed

text \<open>The loop of lines 210 to 224.\<close>

function logistics_loop ::
  "nat \<Rightarrow> globals \<Rightarrow> (nat, nat Set) Map \<Rightarrow> logistics_state
    \<Rightarrow> (error + (nat, nat Set) Map) option" where
  "logistics_loop n G V (unmarkedVertices, logisticsGraph, borderStarQueue) =
     (if \<not> (length unmarkedVertices \<noteq> 0 \<and> length borderStarQueue \<noteq> 0)
      then Some (Inr logisticsGraph)
      else (case logistics_pass n G V (unmarkedVertices, logisticsGraph, borderStarQueue) of
              None \<Rightarrow> None
            | Some (Inl e) \<Rightarrow> Some (Inl e)
            | Some (Inr st') \<Rightarrow> logistics_loop n G V st'))"
  by pat_completeness auto

termination logistics_loop
proof (relation "measures [\<lambda>(n, G, V, U, L, Q). length U, \<lambda>(n, G, V, U, L, Q). length Q]",
    goal_cases)
  case 1
  then show ?case by simp
next
  case (2 n G V unmarkedVertices logisticsGraph borderStarQueue x2 st')
  obtain U' L' Q' where st: "st' = (U', L', Q')" by (cases st')
  with 2 have "logistics_pass n G V (unmarkedVertices, logisticsGraph, borderStarQueue)
      = Some (Inr (U', L', Q'))" by simp
  from logistics_pass_decreases [OF this] st show ?case by auto
qed

text \<open>\<^verbatim>\<open>_createLogisticsGraph\<close>, lines 201 to 227.\<close>

definition createLogisticsGraph ::
  "nat \<Rightarrow> globals \<Rightarrow> (nat, nat Set) Map \<Rightarrow> Heap \<Rightarrow> (error + (nat, nat Set) Map) option" where
  "createLogisticsGraph n G vertexIndexToConnectedVertexIndices borderStarQueue =
     (case unmarkedVertices_loop G vertexIndexToConnectedVertexIndices [] of
        Inl e \<Rightarrow> Some (Inl e)
      | Inr unmarkedVertices \<Rightarrow>
          logistics_loop n G vertexIndexToConnectedVertexIndices
            (unmarkedVertices, [], borderStarQueue))"


section \<open>The entry point\<close>

text \<open>
  \<^verbatim>\<open>play\<close>, lines 18 to 47, and the two spending rules, lines 249 to 280. A call
  that may change the game and the player and may throw returns the changed state and
  the exception, if any; what a call changed before it threw stays changed.
  \<^verbatim>\<open>_setupAi\<close> is a parameter: it calls services and the triangulation package, none
  of which is among the sources, and \<^verbatim>\<open>play\<close> is stated for whatever it does. The
  credits of a player are a number or \<^verbatim>\<open>undefined\<close>. A tick
  and the length of a production cycle are natural numbers; the remainder by a cycle of
  length \<open>0\<close> is NaN, which equals nothing.
\<close>

definition isFirstTick :: "game \<Rightarrow> bool" where
  "isFirstTick g =
     (if productionTicks g = 0 then False
      else state_tick g mod productionTicks g = 1)"

definition isLastTick :: "game \<Rightarrow> bool" where
  "isLastTick g =
     (if productionTicks g = 0 then False
      else int (state_tick g mod productionTicks g) = int (productionTicks g) - 1)"

definition playFirstTick :: "AIService \<Rightarrow> (error option) effect" where
  "playFirstTick this st =
     (let p = snd st in
      if \<not> truthy_field (credits p) \<or> js_lt (ToNumber (credits p)) (Num 0) then (st, None)
      else
        (let creditsToSpendSci =
               Math_floor (js_mul (js_div (ToNumber (credits p)) (Num 100)) (Num 20));
             creditsToSpendInd =
               Math_floor (js_mul (js_div (ToNumber (credits p)) (Num 100)) (Num 30))
         in case (if truthy_number creditsToSpendSci
                  then upgradeBulk this ''totalCredits'' ''science'' creditsToSpendSci False st
                  else (st, None)) of
              (st', Some e) \<Rightarrow> (st', Some e)
            | (st', None) \<Rightarrow>
                if truthy_number creditsToSpendInd
                then upgradeBulk this ''totalCredits'' ''industry'' creditsToSpendInd False st'
                else (st', None)))"

definition playLastTick :: "AIService \<Rightarrow> (error option) effect" where
  "playLastTick this st =
     (let p = snd st in
      if \<not> truthy_field (credits p) \<or> js_le (ToNumber (credits p)) (Num 0) then (st, None)
      else
        (let creditsToSpendEco =
               Math_floor (js_mul (js_div (ToNumber (credits p)) (Num 100)) (Num 100))
         in if truthy_number creditsToSpendEco
            then upgradeBulk this ''totalCredits'' ''economy'' creditsToSpendEco False st
            else (st, None)))"

text \<open>The \<^verbatim>\<open>try\<close> block, lines 26 to 38.\<close>

definition play_try :: "AIService \<Rightarrow> (error option) effect \<Rightarrow> (error option) effect" where
  "play_try this setupAi st =
     (case (if \<not> ai (snd st)
            then setupAi (fst st, (snd st)\<lparr>ai := True\<rparr>)
            else (st, None)) of
        (st', Some e) \<Rightarrow> (st', Some e)
      | (st', None) \<Rightarrow>
          if isFirstTick (fst st') then playFirstTick this st'
          else if isLastTick (fst st') then playLastTick this st'
          else (st', None))"

definition play ::
  "AIService \<Rightarrow> (error option) effect \<Rightarrow> game \<times> player \<Rightarrow> error + game \<times> player" where
  "play this setupAi st =
     (if \<not> defeated (snd st) then Inl (Error ''The player is not under AI control.'')
      else (case play_try this setupAi st of
              (st', caught) \<Rightarrow>
                Inr (fst st',
                     (snd st')\<lparr>credits := Some (Math_max (Num 0) (ToNumber (credits (snd st'))))\<rparr>)))"


section \<open>Well-formed logistics graphs\<close>

text \<open>
  The two properties of a logistics graph, and what the loop keeps true of its state:
  besides them, no destination of an edge and no vertex of the queue is a member of the
  unmarked set.
\<close>

definition no_self_edges :: "(nat, nat Set) Map \<Rightarrow> bool" where
  "no_self_edges L = list_all (\<lambda>e. fst e \<noteq> snd e) (edges L)"

definition claimed_once :: "(nat, nat Set) Map \<Rightarrow> bool" where
  "claimed_once L = distinct (map snd (edges L))"

definition logistics_inv :: "logistics_state \<Rightarrow> bool" where
  "logistics_inv st =
     (case st of (U, L, Q) \<Rightarrow>
        no_self_edges L \<and> claimed_once L \<and>
        list_all (\<lambda>e. Idx (snd e) \<notin> set U) (edges L) \<and>
        list_all (\<lambda>q. Idx (vertex q) \<notin> set U) Q)"


section \<open>Example inputs\<close>

text \<open>
  A service whose distance service has been assigned, globals that bind the four free
  identifiers, and a player with two stars on a line, one and two units from the origin.
\<close>

definition example_this :: AIService where
  "example_this =
     \<lparr>upgradeBulk = (\<lambda>strategy type amount flag st. (st, Some TypeError)),
      distanceService = Some DistanceService\<rparr>"

definition example_player :: player where
  "example_player =
     \<lparr>player_id = 1, defeated = True, ai = False, credits = Some (Num (- 5)), researchingNext = [],
      hyperspace_level = 1\<rparr>"

definition example_globals :: globals where
  "example_globals =
     \<lparr>g_minBy = True, g_player = Some example_player, g_borderVertices = Some [Idx 0],
      g_score = Some (Num 10)\<rparr>"

definition star_at :: "real \<Rightarrow> real \<Rightarrow> nat option \<Rightarrow> star" where
  "star_at a b owner = \<lparr>star_location = \<lparr>loc_x = a, loc_y = b\<rparr>, ownedByPlayerId = owner\<rparr>"

definition example_playerStars :: "star list" where
  "example_playerStars = [star_at 1 0 (Some 1), star_at 2 0 (Some 1)]"

definition example_game :: "star list \<Rightarrow> game" where
  "example_game enemies =
     \<lparr>galaxy_players = [example_player], galaxy_stars = example_playerStars @ enemies,
      lightYear = 1, state_tick = 1, productionTicks = 10\<rparr>"


text \<open>
  Six points: a triangle of the points 0, 1 and 2 with a triangle on each of its edges,
  as the mappings that lines 68 to 77 build from the flat array.
\<close>

definition star_t2v :: "(nat, nat Set) Map" where
  "star_t2v = snd (dual_mappings [0, 1, 2, 0, 1, 3, 1, 2, 4, 0, 2, 5])"

definition star_v2t :: "(nat, nat Set) Map" where
  "star_v2t = fst (dual_mappings [0, 1, 2, 0, 1, 3, 1, 2, 4, 0, 2, 5])"

lemmas ex_defs = example_this_def example_player_def example_globals_def star_at_def
  example_playerStars_def example_game_def


section \<open>Properties of the vertex graph\<close>

lemma set_Set_add: "set (Set_add x s) = insert x (set s)"
  by (auto simp: Set_add_def)

lemma distinct_Set_add: "distinct s \<Longrightarrow> distinct (Set_add x s)"
  by (simp add: Set_add_def)

lemma set_add_each: "set (add_each xs s) = set xs \<union> set s"
  by (induction xs arbitrary: s) (auto simp: set_Set_add)

lemma distinct_add_each: "distinct s \<Longrightarrow> distinct (add_each xs s)"
  by (induction xs arbitrary: s) (auto simp: distinct_Set_add)

lemma map_of_Map_set: "map_of (Map_set k v m) = (map_of m)(k \<mapsto> v)"
  by (simp add: Map_set_def update_conv')

lemma keys_Map_set: "fst ` set (Map_set k v m) = insert k (fst ` set m)"
  by (simp add: Map_set_def dom_update)

lemma distinct_Map_set: "distinct (map fst m) \<Longrightarrow> distinct (map fst (Map_set k v m))"
  by (simp add: Map_set_def distinct_update)

lemma otherVertices_loop_set:
  "otherVertices_loop t2v ts acc = Inr other \<Longrightarrow>
     set other = set acc \<union> (\<Union>t \<in> set ts. set (get_or_new t2v t))"
proof (induction ts arbitrary: acc)
  case Nil
  then show ?case by simp
next
  case (Cons t ts)
  then show ?case
    by (auto simp: set_add_each get_or_new_def split: option.splits)
qed

lemma otherVertices_loop_distinct:
  "otherVertices_loop t2v ts acc = Inr other \<Longrightarrow> distinct acc \<Longrightarrow> distinct other"
  by (induction ts arbitrary: acc) (auto simp: distinct_add_each split: option.splits)

lemma computeVertexGraph_loop_other:
  "computeVertexGraph_loop t2v es g = Inr g' \<Longrightarrow> v \<notin> fst ` set es \<Longrightarrow>
     map_of g' v = map_of g v"
proof (induction es arbitrary: g)
  case Nil
  then show ?case by simp
next
  case (Cons e es)
  obtain w ts where e: "e = (w, ts)" by (cases e)
  from Cons.prems e obtain other where
    o: "otherVertices_loop t2v ts [] = Inr other" and
    r: "computeVertexGraph_loop t2v es (Map_set w other g) = Inr g'"
    by (auto split: sum.splits)
  from Cons.prems e have "v \<noteq> w" "v \<notin> fst ` set es" by auto
  with Cons.IH [OF r] show ?case by (simp add: map_of_Map_set)
qed

lemma computeVertexGraph_loop_entry:
  "computeVertexGraph_loop t2v es g = Inr g' \<Longrightarrow> distinct (map fst es) \<Longrightarrow>
   (v, ts) \<in> set es \<Longrightarrow>
     \<exists>adj. map_of g' v = Some adj \<and> otherVertices_loop t2v ts [] = Inr adj"
proof (induction es arbitrary: g)
  case Nil
  then show ?case by simp
next
  case (Cons e es)
  obtain w us where e: "e = (w, us)" by (cases e)
  from Cons.prems e obtain other where
    o: "otherVertices_loop t2v us [] = Inr other" and
    r: "computeVertexGraph_loop t2v es (Map_set w other g) = Inr g'"
    by (auto split: sum.splits)
  show ?case
  proof (cases "(v, ts) \<in> set es")
    case True
    with Cons.IH [OF r] Cons.prems(2) show ?thesis by simp
  next
    case False
    with Cons.prems(3) e have vw: "v = w" "ts = us" by auto
    from Cons.prems(2) e have "w \<notin> fst ` set es" by simp
    from computeVertexGraph_loop_other [OF r this]
    have "map_of g' w = Some other" by (simp add: map_of_Map_set)
    with o vw show ?thesis by simp
  qed
qed

text \<open>
  C5, as the code has it: the adjacency set of a point is the union of the point sets of
  the triangles registered for it, and the point itself stays in that set.
\<close>

theorem computeVertexGraph_adjacency:
  assumes "computeVertexGraph v2t t2v = Inr g"
    and "distinct (map fst v2t)"
    and "map_of v2t v = Some ts"
  shows "\<exists>adj. map_of g v = Some adj \<and> distinct adj \<and>
           set adj = (\<Union>t \<in> set ts. set (get_or_new t2v t))"
proof -
  from assms(3) have "(v, ts) \<in> set v2t" by (rule map_of_SomeD)
  with assms(1,2) obtain adj where
    a: "map_of g v = Some adj" and o: "otherVertices_loop t2v ts [] = Inr adj"
    unfolding computeVertexGraph_def by (blast dest: computeVertexGraph_loop_entry)
  from otherVertices_loop_distinct [OF o] have d: "distinct adj" by simp
  from otherVertices_loop_set [OF o] a d show ?thesis by simp
qed

theorem computeVertexGraph_adjacency_witness:
  "computeVertexGraph [(0, [0]), (1, [0]), (2, [0])] [(0, [0, 1, 2])]
     = Inr [(0, [0, 1, 2]), (1, [0, 1, 2]), (2, [0, 1, 2])] \<and>
   (\<exists>adj. map_of [(0::nat, [0, 1, 2::nat]), (1, [0, 1, 2]), (2, [0, 1, 2])] 0 = Some adj \<and>
      distinct adj \<and> set adj = (\<Union>t \<in> set [0]. set (get_or_new [(0, [0, 1, 2])] t)))"
proof -
  have h1: "computeVertexGraph [(0, [0]), (1, [0]), (2, [0])] [(0, [0, 1, 2])]
      = Inr [(0, [0, 1, 2]), (1, [0, 1, 2]), (2, [0, 1, 2])]"
    by (simp add: computeVertexGraph_def Map_set_def Set_add_def)
  have h2: "distinct (map fst [(0::nat, [0::nat]), (1, [0]), (2, [0])])" by simp
  have h3: "map_of [(0::nat, [0::nat]), (1, [0]), (2, [0])] 0 = Some [0]" by simp
  from computeVertexGraph_adjacency [OF h1 h2 h3] h1 show ?thesis by blast
qed

text \<open>
  C5, as the claim has it, fails: for the single triangle of the points 0, 1 and 2 the
  adjacency set of point 0 holds point 0, so it is not the union without the point.
\<close>

theorem computeVertexGraph_keeps_self:
  "computeVertexGraph [(0, [0]), (1, [0]), (2, [0])] [(0, [0, 1, 2])]
     = Inr [(0, [0, 1, 2]), (1, [0, 1, 2]), (2, [0, 1, 2])] \<and>
   map_of [(0::nat, [0, 1, 2::nat]), (1, [0, 1, 2]), (2, [0, 1, 2])] 0 = Some [0, 1, 2] \<and>
   set [0, 1, 2] \<noteq> (\<Union>t \<in> set [0]. set (get_or_new [(0, [0, 1, 2])] t)) - {0}"
proof -
  have "(0::nat) \<in> set [0, 1, 2]" by simp
  moreover have "(0::nat) \<notin> (\<Union>t \<in> set [0]. set (get_or_new [(0, [0, 1, 2])] t)) - {0}"
    by simp
  ultimately have "set [0, 1, 2::nat]
      \<noteq> (\<Union>t \<in> set [0]. set (get_or_new [(0, [0, 1, 2])] t)) - {0}"
    by metis
  then show ?thesis
    by (simp add: computeVertexGraph_def Map_set_def Set_add_def)
qed


section \<open>Properties of the carrier loops\<close>

lemma push_ends_eq:
  "push_ends ps start ends loops
     = loops @ map (\<lambda>e. Some (descriptor ps (start, e))) ends"
  by (induction ends arbitrary: loops) (simp_all add: descriptor_def)

lemma push_starts_eq:
  "push_starts ps g loops = loops @ map (\<lambda>e. Some (descriptor ps e)) (edges g)"
  by (induction g arbitrary: loops) (auto simp: edges_def push_ends_eq comp_def)

lemma computeCarrierLoopsFromGraph_eq:
  "computeCarrierLoopsFromGraph g ps
     = replicate (length g) None @ map (\<lambda>e. Some (descriptor ps e)) (edges g)"
  by (simp add: computeCarrierLoopsFromGraph_def push_starts_eq)

text \<open>
  C8 at the graph of the one edge from point 0 to point 1: the array that comes back has
  two slots, an empty one in front of the descriptor of the edge.
\<close>

theorem computeCarrierLoopsFromGraph_one_edge:
  "computeCarrierLoopsFromGraph [(0, [1])] [''A'', ''B'']
     = [None, Some \<lparr>loop_from = Some ''A'', loop_to = Some ''B''\<rparr>]"
  by (simp add: computeCarrierLoopsFromGraph_def index_def)

section \<open>Properties of the unmarked set\<close>

lemma unmarkedVertices_loop_entries:
  "g_borderVertices G = Some B \<Longrightarrow>
     unmarkedVertices_loop G V U = Inr (U @ map (\<lambda>(k, vs). Entry k vs) V)"
  by (induction V arbitrary: U) auto

lemma unmarkedVertices_loop_unbound:
  "g_borderVertices G = None \<Longrightarrow> V \<noteq> [] \<Longrightarrow> unmarkedVertices_loop G V U = Inl ReferenceError"
  by (cases V) auto

text \<open>
  C9 at the graph of the two points 0 and 1, each adjacent to both, with boundary set
  \<open>{0}\<close>: the unmarked set is not \<open>{1}\<close>. Where \<^verbatim>\<open>borderVertices\<close> is a global that
  holds the boundary set, the unmarked set holds the two entries of the graph and no
  point; where it is not bound, the first step of the loop raises a ReferenceError.
\<close>

theorem unmarkedVertices_holds_entries:
  "unmarkedVertices_loop (no_globals\<lparr>g_borderVertices := Some [Idx 0]\<rparr>)
       [(0, [0, 1]), (1, [0, 1])] []
     = Inr [Entry 0 [0, 1], Entry 1 [0, 1]] \<and>
   unmarkedVertices_loop no_globals [(0, [0, 1]), (1, [0, 1])] [] = Inl ReferenceError"
  by (simp add: no_globals_def)


section \<open>Properties of the queue\<close>

lemma js_lt_irrefl: "\<not> js_lt a a"
  by (cases a) auto

lemma js_lt_trans: "js_lt a b \<Longrightarrow> js_lt b c \<Longrightarrow> js_lt a c"
  by (cases a; cases b; cases c) auto

text \<open>The two comparators of lines 179 and 180 order the entries alike.\<close>

lemma compar_agrees: "js_lt (compar b1 b2) (Num 0) = comparBefore b1 b2"
  by (cases "score b1"; cases "score b2") (auto simp: compar_def comparBefore_def)

lemma ordered_first_least:
  "\<forall>x \<in> set seen. \<not> comparBefore x best \<Longrightarrow>
     \<forall>x \<in> set seen \<union> set (best # es). \<not> comparBefore x (ordered_first best es)"
proof (induction es arbitrary: best seen)
  case Nil
  then show ?case by (auto simp: comparBefore_def js_lt_irrefl)
next
  case (Cons e es)
  let ?b = "if comparBefore e best then e else best"
  have "\<forall>x \<in> set (e # best # seen). \<not> comparBefore x ?b"
    using Cons.prems by (auto simp: comparBefore_def js_lt_irrefl dest: js_lt_trans)
  from Cons.IH [OF this] show ?case
    by (auto simp: comparBefore_def)
qed

text \<open>What \<^verbatim>\<open>dequeue\<close> returns: an entry of the heap that no entry has a smaller score than.\<close>

lemma Heap_dequeue_first:
  assumes "Heap_dequeue Q = Some (item, Q')"
  shows "item \<in> set Q \<and> (\<forall>x \<in> set Q. \<not> js_lt (score x) (score item))"
proof (cases Q)
  case Nil
  with assms show ?thesis by (simp add: Heap_dequeue_def)
next
  case (Cons e es)
  with assms have i: "item = ordered_first e es"
    by (auto simp: Heap_dequeue_def Let_def)
  from ordered_first_least [of "[]" e es] ordered_first_in [of e es] i Cons
  show ?thesis by (auto simp: comparBefore_def)
qed

text \<open>
  C1 at a queue the scorer builds: a hostile star at the origin, own stars one and two
  units away, range 2.5. The scorer gives the nearer star the score 2.5 and the farther
  one 1.25; \<^verbatim>\<open>dequeue\<close> returns the entry of score 1.25 while 2.5 is in the queue.
\<close>

theorem dequeue_returns_least_score:
  "computeBorderStarQueue example_this example_globals (example_game [star_at 0 0 (Some 2)])
       [0, 1] example_playerStars
     = Inr [\<lparr>score = Num 2.5, vertex = 0\<rparr>, \<lparr>score = Num 1.25, vertex = 1\<rparr>] \<and>
   Heap_dequeue [\<lparr>score = Num 2.5, vertex = 0\<rparr>, \<lparr>score = Num 1.25, vertex = 1\<rparr>]
     = Some (\<lparr>score = Num 1.25, vertex = 1\<rparr>, [\<lparr>score = Num 2.5, vertex = 0\<rparr>])"
  by (simp add: ex_defs computeBorderStarQueue_def getHyperspaceDistance_def or_one_def
      distanceToClosestEnemyStar_def getDistanceBetweenLocations_def
      getDistanceSquaredBetweenLocations_def index_def Heap_insert_def Heap_dequeue_def
      comparBefore_def Let_def)


section \<open>Properties of the threat scorer\<close>

text \<open>
  A service as its constructor leaves it has no distance service, and the scorer stops at
  line 175.
\<close>

lemma computeBorderStarQueue_constructed:
  "computeBorderStarQueue (constructor ub cs ss ds) G g borderVertices playerStars = Inl TypeError"
  by (simp add: computeBorderStarQueue_def constructor_def)

lemma borderStarQueue_loop_keeps:
  "borderStarQueue_loop G h es ps bvs Q = Inr Q' \<Longrightarrow> set Q \<subseteq> set Q'"
proof (induction bvs arbitrary: Q)
  case Nil
  then show ?case by simp
next
  case (Cons b bvs)
  then show ?case
    by (auto simp: Let_def Heap_insert_def split: sum.splits if_splits dest!: Cons.IH)
qed

lemma borderStarQueue_loop_zero:
  assumes "borderStarQueue_loop G h es ps bvs Q = Inr Q'"
    and "b \<in> set bvs"
    and "distanceToClosestEnemyStar G es (index ps b) = Inr (Some 0)"
    and "0 < h"
  shows "\<lparr>score = PosInfinity, vertex = b\<rparr> \<in> set Q'"
  using assms(1,2)
proof (induction bvs arbitrary: Q)
  case Nil
  then show ?case by simp
next
  case (Cons a bvs)
  show ?case
  proof (cases "a = b")
    case True
    with Cons.prems(1) assms(3,4)
    have "borderStarQueue_loop G h es ps bvs
            (Heap_insert \<lparr>score = PosInfinity, vertex = b\<rparr> Q) = Inr Q'"
      by (simp add: Let_def)
    from borderStarQueue_loop_keeps [OF this] show ?thesis
      by (auto simp: Heap_insert_def)
  next
    case False
    with Cons.prems(2) have "b \<in> set bvs" by simp
    with Cons.prems(1) Cons.IH show ?thesis
      by (auto simp: Let_def split: sum.splits if_splits)
  qed
qed

text \<open>
  C2, as the code has it: nothing guards the division. For a boundary point whose nearest
  hostile star is at distance 0, with a positive range, the scorer evaluates one over
  zero, which is the positive infinity, and inserts the point with that score.
\<close>

theorem zero_distance_scores_infinity:
  assumes "computeBorderStarQueue this G g borderVertices playerStars = Inr Q"
    and "enemyStars_filter G (galaxy_stars g) = Inr enemyStars"
    and "borderVertex \<in> set borderVertices"
    and "distanceToClosestEnemyStar G enemyStars (index playerStars borderVertex) = Inr (Some 0)"
    and "0 < getHyperspaceDistance g (maxBy hyperspace_level (galaxy_players g))"
  shows "\<lparr>score = js_div (Num 1) (Num 0), vertex = borderVertex\<rparr> \<in> set Q \<and>
         js_div (Num 1) (Num 0) = PosInfinity"
proof -
  from assms(1,2) have
    "borderStarQueue_loop G (getHyperspaceDistance g (maxBy hyperspace_level (galaxy_players g)))
       enemyStars playerStars borderVertices [] = Inr Q"
    by (auto simp: computeBorderStarQueue_def Let_def split: option.splits)
  from borderStarQueue_loop_zero [OF this assms(3,4,5)] show ?thesis by simp
qed

theorem zero_distance_scores_infinity_witness:
  "computeBorderStarQueue example_this example_globals (example_game [star_at 2 0 (Some 2)])
       [0, 1] example_playerStars
     = Inr [\<lparr>score = Num 2.5, vertex = 0\<rparr>, \<lparr>score = PosInfinity, vertex = 1\<rparr>] \<and>
   \<lparr>score = js_div (Num 1) (Num 0), vertex = 1\<rparr>
     \<in> set [\<lparr>score = Num 2.5, vertex = 0\<rparr>, \<lparr>score = PosInfinity, vertex = 1\<rparr>]"
proof -
  let ?g = "example_game [star_at 2 0 (Some 2)]"
  have h1: "computeBorderStarQueue example_this example_globals ?g [0, 1] example_playerStars
     = Inr [\<lparr>score = Num 2.5, vertex = 0\<rparr>, \<lparr>score = PosInfinity, vertex = 1\<rparr>]"
    by (simp add: ex_defs computeBorderStarQueue_def getHyperspaceDistance_def or_one_def
      distanceToClosestEnemyStar_def getDistanceBetweenLocations_def
      getDistanceSquaredBetweenLocations_def index_def Heap_insert_def Let_def)
  have h2: "enemyStars_filter example_globals (galaxy_stars ?g) = Inr [star_at 2 0 (Some 2)]"
    by (simp add: ex_defs)
  have h3: "(1::nat) \<in> set [0, 1]" by simp
  have h4: "distanceToClosestEnemyStar example_globals [star_at 2 0 (Some 2)]
      (index example_playerStars 1) = Inr (Some 0)"
    by (simp add: ex_defs distanceToClosestEnemyStar_def getDistanceBetweenLocations_def
      getDistanceSquaredBetweenLocations_def index_def)
  have h5: "0 < getHyperspaceDistance ?g (maxBy hyperspace_level (galaxy_players ?g))"
    by (simp add: ex_defs getHyperspaceDistance_def or_one_def)
  from zero_distance_scores_infinity [OF h1 h2 h3 h4 h5] h1 show ?thesis by simp
qed

text \<open>
  C2, as the claim has it, fails: with a hostile star on the own star 0 the entry of the
  queue carries the quotient of one by zero, which is the infinity and not the largest
  finite number.
\<close>

theorem zero_distance_divides:
  "computeBorderStarQueue example_this example_globals (example_game [star_at 1 0 (Some 2)])
       [0] example_playerStars
     = Inr [\<lparr>score = js_div (Num 1) (Num 0), vertex = 0\<rparr>] \<and>
   js_div (Num 1) (Num 0) = PosInfinity \<and> PosInfinity \<noteq> MAX_VALUE"
  by (simp add: ex_defs computeBorderStarQueue_def getHyperspaceDistance_def or_one_def
      distanceToClosestEnemyStar_def getDistanceBetweenLocations_def
      getDistanceSquaredBetweenLocations_def index_def Heap_insert_def MAX_VALUE_def Let_def)

lemma borderStarQueue_loop_no_enemies:
  "borderStarQueue_loop G h [] ps bvs Q = Inr Q' \<Longrightarrow> Q' = Q"
proof (induction bvs arbitrary: Q)
  case Nil
  then show ?case by simp
next
  case (Cons b bvs)
  then show ?case
    by (auto simp: Let_def distanceToClosestEnemyStar_def split: sum.splits if_splits)
qed

section \<open>Properties of the logistics graph\<close>

text \<open>
  The unmarked set that \<^const>\<open>unmarkedVertices_loop\<close> builds holds entries only. A
  search then finds no vertex of the graph unmarked and goes on to the vertices that the
  logistics graph connects, and reading these from the empty logistics graph raises a
  TypeError. So the method returns in one of five ways, and a stack of depth one is
  enough for each.
\<close>

lemma unmarkedVertices_loop_no_Idx:
  "unmarkedVertices_loop G V U = Inr U' \<Longrightarrow> (\<forall>v. Idx v \<notin> set U) \<Longrightarrow> (\<forall>v. Idx v \<notin> set U')"
proof (induction V arbitrary: U)
  case Nil
  then show ?case by simp
next
  case (Cons e V)
  then show ?case
    by (cases e) (auto split: option.splits)
qed

lemma unmarkedVertices_loop_empty:
  "unmarkedVertices_loop G V [] = Inr U \<Longrightarrow> (U = []) = (V = [])"
  by (cases V) (auto split: option.splits simp: unmarkedVertices_loop_entries)

lemma findNext_no_Idx:
  "(\<forall>v. Idx v \<notin> set U) \<Longrightarrow>
     findNextLogisticsConnection (Suc n) V [] U s = Some (Inl TypeError)"
  by (simp add: find_Some_iff truthy_def split: option.splits)

lemma logistics_pass_no_Idx:
  assumes "\<forall>v. Idx v \<notin> set U" and "Q \<noteq> []"
  shows "logistics_pass (Suc n) G V (U, [], Q) =
     Some (if g_score G = None then Inl ReferenceError else Inl TypeError)"
proof -
  from assms(2) obtain item Q' where d: "Heap_dequeue Q = Some (item, Q')"
    by (cases Q) (simp_all add: Heap_dequeue_def Let_def)
  from d findNext_no_Idx [OF assms(1), of n V "vertex item"] show ?thesis
    by (auto simp: logistics_pass_def Let_def split: option.splits)
qed

lemma logistics_loop_no_Idx:
  assumes "\<forall>v. Idx v \<notin> set U"
  shows "logistics_loop (Suc n) G V (U, [], Q) =
     Some (if U = [] \<or> Q = [] then Inr []
           else if g_score G = None then Inl ReferenceError else Inl TypeError)"
proof (cases "U = [] \<or> Q = []")
  case True
  then show ?thesis by auto
next
  case False
  with logistics_pass_no_Idx [OF assms, of Q n G V] show ?thesis
    by auto
qed

lemma createLogisticsGraph_result:
  "createLogisticsGraph (Suc n) G V Q =
     Some (if V = [] then Inr []
           else if g_borderVertices G = None then Inl ReferenceError
           else if Q = [] then Inr []
           else if g_score G = None then Inl ReferenceError
           else Inl TypeError)"
proof (cases "unmarkedVertices_loop G V []")
  case (Inl e)
  then have "V \<noteq> []" by (cases V) auto
  moreover from Inl have "g_borderVertices G = None"
    by (cases "g_borderVertices G") (auto simp: unmarkedVertices_loop_entries)
  moreover from this \<open>V \<noteq> []\<close> Inl have "e = ReferenceError"
    by (simp add: unmarkedVertices_loop_unbound)
  ultimately show ?thesis using Inl by (simp add: createLogisticsGraph_def)
next
  case (Inr U)
  have n: "\<forall>v. Idx v \<notin> set U"
    using unmarkedVertices_loop_no_Idx [OF Inr] by simp
  have e: "(U = []) = (V = [])" by (rule unmarkedVertices_loop_empty [OF Inr])
  have b: "V \<noteq> [] \<Longrightarrow> g_borderVertices G \<noteq> None"
    using Inr by (cases "g_borderVertices G") (auto simp: unmarkedVertices_loop_unbound)
  show ?thesis
    using Inr logistics_loop_no_Idx [OF n, of n G V Q] e b
    by (auto simp: createLogisticsGraph_def)
qed


lemma createLogisticsGraph_empty_queue:
  "createLogisticsGraph n G V [] =
     Some (if V = [] \<or> g_borderVertices G \<noteq> None then Inr [] else Inl ReferenceError)"
proof (cases "unmarkedVertices_loop G V []")
  case (Inl e)
  then have "V \<noteq> []" by (cases V) auto
  moreover from Inl have "g_borderVertices G = None"
    by (cases "g_borderVertices G") (auto simp: unmarkedVertices_loop_entries)
  moreover from this \<open>V \<noteq> []\<close> Inl have "e = ReferenceError"
    by (simp add: unmarkedVertices_loop_unbound)
  ultimately show ?thesis using Inl by (simp add: createLogisticsGraph_def)
next
  case (Inr U)
  then have "V \<noteq> [] \<Longrightarrow> g_borderVertices G \<noteq> None"
    by (cases "g_borderVertices G") (auto simp: unmarkedVertices_loop_unbound)
  with Inr show ?thesis by (auto simp: createLogisticsGraph_def)
qed


text \<open>
  At the graph of the two points 0 and 1, each adjacent to both, with the queue
  \<open>[(4, 0)]\<close>, the first pass of the loop raises a TypeError where the free identifiers
  are bound, and a ReferenceError where they are not.
\<close>

lemma createLogisticsGraph_aborts:
  "createLogisticsGraph (Suc 0) example_globals [(0, [0, 1]), (1, [0, 1])]
       [\<lparr>score = Num 4, vertex = 0\<rparr>] = Some (Inl TypeError) \<and>
   createLogisticsGraph (Suc 0) no_globals [(0, [0, 1]), (1, [0, 1])]
       [\<lparr>score = Num 4, vertex = 0\<rparr>] = Some (Inl ReferenceError)"
  by (simp add: createLogisticsGraph_result example_globals_def no_globals_def)

text \<open>
  The loop on a state whose unmarked set holds the points 1 and 2: the boundary point 0
  claims both, one in each pass.
\<close>

lemma logistics_loop_example:
  "logistics_loop (Suc 0) example_globals [(0, [0, 1, 2]), (1, [0, 1, 2]), (2, [0, 1, 2])]
       ([Idx 1, Idx 2], [], [\<lparr>score = Num 4, vertex = 0\<rparr>])
     = Some (Inr [(0, [1, 2])])"
  by (simp add: logistics_pass_def example_globals_def Heap_dequeue_def Heap_insert_def
      truthy_def Set_delete_def add_connection_def get_or_new_def Map_set_def Set_add_def
      Let_def comparBefore_def)







section \<open>Without hostile stars\<close>

text \<open>
  When no star is hostile, a scorer that returns has inserted no boundary point, and the
  builder returns the empty graph from its queue or stops at the free identifier
  \<^verbatim>\<open>borderVertices\<close>.
\<close>

lemma no_enemies_no_plan:
  assumes "enemyStars_filter G (galaxy_stars g) = Inr []"
    and "computeBorderStarQueue this G g borderVertices playerStars = Inr Q"
  shows "Q = [] \<and>
         (createLogisticsGraph n G V Q = Some (Inr []) \<or>
          createLogisticsGraph n G V Q = Some (Inl ReferenceError))"
proof -
  from assms have
    "borderStarQueue_loop G (getHyperspaceDistance g (maxBy hyperspace_level (galaxy_players g)))
       [] playerStars borderVertices [] = Inr Q"
    by (auto simp: computeBorderStarQueue_def Let_def split: option.splits)
  then have "Q = []" by (rule borderStarQueue_loop_no_enemies)
  then show ?thesis by (simp add: createLogisticsGraph_empty_queue)
qed

lemma no_enemies_no_plan_example:
  "enemyStars_filter example_globals (galaxy_stars (example_game [])) = Inr [] \<and>
   computeBorderStarQueue example_this example_globals (example_game []) [0, 1]
       example_playerStars = Inr [] \<and>
   createLogisticsGraph (Suc 0) example_globals [(0, [0, 1]), (1, [0, 1])] [] = Some (Inr [])"
proof -
  have h1: "enemyStars_filter example_globals (galaxy_stars (example_game [])) = Inr []"
    by (simp add: ex_defs)
  have h2: "computeBorderStarQueue example_this example_globals (example_game []) [0, 1]
       example_playerStars = Inr []"
    by (simp add: ex_defs computeBorderStarQueue_def distanceToClosestEnemyStar_def Let_def)
  have "createLogisticsGraph (Suc 0) example_globals [(0, [0, 1]), (1, [0, 1])] []
      \<noteq> Some (Inl ReferenceError)"
    by (simp add: createLogisticsGraph_result example_globals_def)
  with no_enemies_no_plan [OF h1 h2, of "Suc 0" "[(0, [0, 1]), (1, [0, 1])]"] h1 h2
  show ?thesis by simp
qed

text \<open>
  C7 where no star is hostile (the stars of the game are the two of the player) and the
  free identifiers are not bound, as in the module: no empty graph results. The scorer
  raises a ReferenceError, and the builder, called with the empty queue and the graph of
  the two points 0 and 1, raises a ReferenceError as well.
\<close>

theorem no_enemies_raises:
  "computeBorderStarQueue example_this no_globals (example_game []) [0, 1] example_playerStars
     = Inl ReferenceError \<and>
   createLogisticsGraph (Suc 0) no_globals [(0, [0, 1]), (1, [0, 1])] []
     = Some (Inl ReferenceError)"
  by (simp add: createLogisticsGraph_empty_queue computeBorderStarQueue_def ex_defs
      no_globals_def Let_def)


section \<open>Properties of the entry point\<close>

lemma Math_max_nonneg: "b \<noteq> NaN \<Longrightarrow> js_le (Num 0) (Math_max (Num 0) b)"
  by (cases b) auto

text \<open>
  C10, as the code has it: \<^verbatim>\<open>play\<close> throws exactly for a player that is not
  defeated, with the message of line 20; for a defeated player it returns whatever
  \<^verbatim>\<open>_setupAi\<close> and \<^verbatim>\<open>upgradeBulk\<close> do or throw. The credits it leaves are
  \<^verbatim>\<open>Math.max(0, player.credits)\<close>, and they are not negative when the credits that
  reach line 46 are a number.
\<close>

theorem play_contract:
  "(\<not> defeated (snd st) \<longrightarrow>
      play this setupAi st = Inl (Error ''The player is not under AI control.'')) \<and>
   (defeated (snd st) \<longrightarrow>
      (\<exists>st' c. play this setupAi st = Inr st' \<and> credits (snd st') = Some c \<and>
         c = Math_max (Num 0) (ToNumber (credits (snd (fst (play_try this setupAi st))))) \<and>
         (ToNumber (credits (snd (fst (play_try this setupAi st)))) \<noteq> NaN
            \<longrightarrow> js_le (Num 0) c)))"
  by (auto simp: play_def Math_max_nonneg split: prod.splits)

theorem play_contract_witness:
  "defeated (snd (example_game [], example_player)) \<and>
   ToNumber (credits (snd (fst (play_try example_this (\<lambda>st. (st, Some TypeError))
       (example_game [], example_player))))) \<noteq> NaN \<and>
   (\<exists>st' c. play example_this (\<lambda>st. (st, Some TypeError)) (example_game [], example_player)
             = Inr st' \<and> credits (snd st') = Some c \<and> js_le (Num 0) c)"
proof -
  have d: "defeated (snd (example_game [], example_player))"
    by (simp add: example_player_def)
  have n: "ToNumber (credits (snd (fst (play_try example_this (\<lambda>st. (st, Some TypeError))
       (example_game [], example_player))))) \<noteq> NaN"
    by (simp add: play_try_def example_player_def)
  from play_contract [of "(example_game [], example_player)" example_this
      "\<lambda>st. (st, Some TypeError)"] d n
  show ?thesis by blast
qed

lemma play_example:
  "play example_this (\<lambda>st. (st, Some TypeError)) (example_game [], example_player)
     = Inr (example_game [], example_player\<lparr>ai := True, credits := Some (Num 0)\<rparr>)"
  by (simp add: play_def play_try_def example_player_def)

text \<open>
  C10, as the claim has it, fails: a defeated player whose credits are \<^verbatim>\<open>undefined\<close>
  leaves \<^verbatim>\<open>play\<close>, on a tick that is neither the first nor the last of a cycle, with
  the credits NaN, and NaN is not at least zero.
\<close>

theorem play_leaves_NaN:
  "play example_this (\<lambda>st. (st, None))
       ((example_game [])\<lparr>state_tick := 2\<rparr>, example_player\<lparr>ai := True, credits := None\<rparr>)
     = Inr ((example_game [])\<lparr>state_tick := 2\<rparr>,
            example_player\<lparr>ai := True, credits := Some NaN\<rparr>) \<and>
   \<not> js_le (Num 0) NaN"
  by (simp add: play_def play_try_def example_player_def example_game_def isFirstTick_def
      isLastTick_def)


section \<open>Properties of the border detector\<close>

lemma triangleCandidates_loop_distinct:
  "triangleCandidates_loop v2t vs acc = Inr cands \<Longrightarrow> distinct acc \<Longrightarrow> distinct cands"
  by (induction vs arbitrary: acc) (auto simp: distinct_add_each split: option.splits)

lemma sharedVertices_map_snd:
  "sharedVertices_map t2v vs cs = Inr r \<Longrightarrow> map snd r = cs"
  by (induction cs arbitrary: r) (auto split: option.splits sum.splits)

lemma sharedVertices_map_fst:
  "sharedVertices_map t2v vs cs = Inr r \<Longrightarrow> (sh, c) \<in> set r \<Longrightarrow>
     \<exists>vc. map_of t2v c = Some vc \<and> sh = intersectionOfSets vc vs"
  by (induction cs arbitrary: r) (auto split: option.splits sum.splits)

lemma two_shared_facts:
  assumes "trianglesWithTwoSharedVertices t2v vs cands = Inr two" and "distinct cands"
  shows "distinct (map snd two)"
    and "\<And>sh c. (sh, c) \<in> set two \<Longrightarrow>
           \<exists>vc. map_of t2v c = Some vc \<and> sh = intersectionOfSets vc vs \<and> length sh = 2"
proof -
  from assms(1) obtain r where r: "sharedVertices_map t2v vs cands = Inr r"
    and two: "two = filter (\<lambda>cand. length (fst cand) = 2) r"
    by (auto simp: trianglesWithTwoSharedVertices_def split: sum.splits)
  from sharedVertices_map_snd [OF r] assms(2) have "distinct (map snd r)" by simp
  then show "distinct (map snd two)" unfolding two by (rule distinct_map_filter)
  fix sh c assume "(sh, c) \<in> set two"
  with two have "(sh, c) \<in> set r" "length sh = 2" by auto
  with sharedVertices_map_fst [OF r]
  show "\<exists>vc. map_of t2v c = Some vc \<and> sh = intersectionOfSets vc vs \<and> length sh = 2"
    by blast
qed

lemma card_shared:
  "distinct vc \<Longrightarrow> card (set vc \<inter> set vs) = length (intersectionOfSets vc vs)"
proof -
  assume d: "distinct vc"
  have "set (intersectionOfSets vc vs) = set vc \<inter> set vs"
    by (auto simp: intersectionOfSets_def)
  moreover from d have "distinct (intersectionOfSets vc vs)"
    by (simp add: intersectionOfSets_def)
  ultimately show ?thesis by (metis distinct_card)
qed

lemma three_with_edge:
  assumes "e1 \<in> set t2v" "e2 \<in> set t2v" "e3 \<in> set t2v"
    and "e1 \<noteq> e2" "e1 \<noteq> e3" "e2 \<noteq> e3"
    and "a \<in> set (snd e1)" "b \<in> set (snd e1)"
    and "a \<in> set (snd e2)" "b \<in> set (snd e2)"
    and "a \<in> set (snd e3)" "b \<in> set (snd e3)"
  shows "3 \<le> length (triangles_with_edge t2v a b)"
proof -
  let ?S = "set (triangles_with_edge t2v a b)"
  from assms have "{e1, e2, e3} \<subseteq> ?S" by (auto simp: triangles_with_edge_def)
  then have "card {e1, e2, e3} \<le> card ?S" by (simp add: card_mono)
  moreover from assms(4-6) have "card {e1, e2, e3} = 3" by simp
  moreover have "card ?S \<le> length (triangles_with_edge t2v a b)" by (rule card_length)
  ultimately show ?thesis by linarith
qed

lemma edge_neighbours_le_3:
  assumes tri: "triangulation t2v"
    and tv: "(t, vs) \<in> set t2v"
    and two: "trianglesWithTwoSharedVertices t2v vs cands = Inr two"
    and dc: "distinct cands"
  shows "length two \<le> 3"
proof -
  let ?E = "snd ` set two"
  let ?g = "\<lambda>c. set (get_or_new t2v c) \<inter> set vs"
  note facts = two_shared_facts [OF two dc]
  from tri have dk: "distinct (map fst t2v)" by (simp add: triangulation_def)
  from tri have ok: "\<And>u us. (u, us) \<in> set t2v \<Longrightarrow> triangle_ok t2v us"
    by (auto simp: triangulation_def list_all_iff)
  from ok [OF tv] have dvs: "distinct vs" and lvs: "length vs = 3"
    and edge: "\<And>a b. a \<in> set vs \<Longrightarrow> b \<in> set vs \<Longrightarrow> a \<noteq> b \<Longrightarrow>
        length (triangles_with_edge t2v a b) \<le> 2"
    by (auto simp: triangle_ok_def list_all_iff)
  have mem: "\<And>c. c \<in> ?E \<Longrightarrow>
      \<exists>vc. (c, vc) \<in> set t2v \<and> get_or_new t2v c = vc \<and> distinct vc \<and> card (?g c) = 2"
  proof -
    fix c assume "c \<in> ?E"
    then obtain sh where "(sh, c) \<in> set two" by auto
    from facts(2) [OF this] obtain vc where
      vc: "map_of t2v c = Some vc" and sh: "sh = intersectionOfSets vc vs" "length sh = 2"
      by blast
    from vc have in_t: "(c, vc) \<in> set t2v" by (rule map_of_SomeD)
    from ok [OF this] have "distinct vc" by (simp add: triangle_ok_def)
    with card_shared [of vc vs] sh vc in_t show
      "\<exists>vc. (c, vc) \<in> set t2v \<and> get_or_new t2v c = vc \<and> distinct vc \<and> card (?g c) = 2"
      by (auto simp: get_or_new_def)
  qed
  have self: "card (set vs \<inter> set vs) = 3" using dvs lvs by (simp add: distinct_card)
  have inj: "inj_on ?g ?E"
  proof (rule inj_onI)
    fix c c' assume c: "c \<in> ?E" and c': "c' \<in> ?E" and eq: "?g c = ?g c'"
    from mem [OF c] obtain vc where vc: "(c, vc) \<in> set t2v" "get_or_new t2v c = vc"
      "card (?g c) = 2" by blast
    from mem [OF c'] obtain vc' where vc': "(c', vc') \<in> set t2v" "get_or_new t2v c' = vc'"
      "card (?g c') = 2" by blast
    from vc(3) obtain a b where ab: "?g c = {a, b}" "a \<noteq> b" by (auto simp: card_2_iff)
    with eq have ab': "?g c' = {a, b}" by simp
    from ab vc(2) have m1: "a \<in> set vc" "b \<in> set vc" "a \<in> set vs" "b \<in> set vs" by auto
    from ab' vc'(2) have m2: "a \<in> set vc'" "b \<in> set vc'" by auto
    have ne: "(c, vc) \<noteq> (t, vs)"
    proof
      assume "(c, vc) = (t, vs)"
      with vc(2,3) self show False by simp
    qed
    have ne': "(c', vc') \<noteq> (t, vs)"
    proof
      assume "(c', vc') = (t, vs)"
      with vc'(2,3) self show False by simp
    qed
    show "c = c'"
    proof (rule ccontr)
      assume "c \<noteq> c'"
      then have "(c, vc) \<noteq> (c', vc')" by simp
      from three_with_edge [of "(t, vs)" t2v "(c, vc)" "(c', vc')" a b]
        tv vc(1) vc'(1) ne ne' this m1 m2
      have "3 \<le> length (triangles_with_edge t2v a b)" by auto
      with edge [OF m1(3,4) ab(2)] show False by simp
    qed
  qed
  have sub: "?g ` ?E \<subseteq> {s. s \<subseteq> set vs \<and> card s = 2}"
    using mem by auto
  have fin: "finite {s. s \<subseteq> set vs \<and> card s = 2}" by simp
  have "card {s. s \<subseteq> set vs \<and> card s = 2} = card (set vs) choose 2"
    by (rule n_subsets) simp
  also have "\<dots> = 3" using dvs lvs by (simp add: distinct_card numeral_2_eq_2 numeral_3_eq_3)
  finally have three: "card {s. s \<subseteq> set vs \<and> card s = 2} = 3" .
  have "length two = length (map snd two)" by simp
  also have "\<dots> = card ?E" using facts(1) by (metis distinct_card set_map)
  also have "\<dots> = card (?g ` ?E)" using inj by (simp add: card_image)
  also have "\<dots> \<le> card {s. s \<subseteq> set vs \<and> card s = 2}"
    using sub fin by (rule card_mono [rotated])
  finally show ?thesis using three by simp
qed


lemma borderTriangles_loop_bounds:
  "borderTriangles_loop t2v v2t es (B, m) = Inr (B', m') \<Longrightarrow>
     set B \<subseteq> set B' \<and> set B' \<subseteq> set B \<union> fst ` set es"
proof (induction es arbitrary: B m)
  case Nil
  then show ?case by simp
next
  case (Cons e es)
  obtain u us where e: "e = (u, us)" by (cases e)
  from Cons.prems e obtain B1 m1 where
    r: "borderTriangles_loop t2v v2t es (B1, m1) = Inr (B', m')"
    and b1: "B1 = B \<or> B1 = Set_add u B"
    by (auto split: sum.splits if_splits)
  from Cons.IH [OF r] b1 e show ?case
    by (auto simp: set_Set_add)
qed

lemma borderTriangles_loop_classifies:
  assumes "borderTriangles_loop t2v v2t es (B, m) = Inr (B', m')"
    and "distinct (map fst es)"
    and "(t, vs) \<in> set es"
    and "t \<notin> set B"
  shows "\<exists>cands two. triangleCandidates_loop v2t vs [] = Inr cands \<and>
           trianglesWithTwoSharedVertices t2v vs cands = Inr two \<and>
           (t \<in> set B' \<longleftrightarrow> length two < 3)"
  using assms
proof (induction es arbitrary: B m)
  case Nil
  then show ?case by simp
next
  case (Cons e es)
  obtain u us where e: "e = (u, us)" by (cases e)
  from Cons.prems(1) e obtain cands two where
    c: "triangleCandidates_loop v2t us [] = Inr cands"
    and w: "trianglesWithTwoSharedVertices t2v us cands = Inr two"
    by (auto split: sum.splits)
  let ?B1 = "if length two < 3 then Set_add u B else B"
  let ?m1 = "if length two < 3 then Map_set u cands m else m"
  from Cons.prems(1) e c w have
    r: "borderTriangles_loop t2v v2t es (?B1, ?m1) = Inr (B', m')"
    by (auto split: if_splits)
  from Cons.prems(2) e have u: "u \<notin> fst ` set es" and d: "distinct (map fst es)" by auto
  show ?case
  proof (cases "(t, vs) = (u, us)")
    case True
    from borderTriangles_loop_bounds [OF r] u Cons.prems(4) True
    have "t \<in> set B' \<longleftrightarrow> length two < 3"
      by (auto simp: set_Set_add split: if_splits)
    with c w True show ?thesis by auto
  next
    case False
    with Cons.prems(3) e have i: "(t, vs) \<in> set es" by auto
    with u have "t \<noteq> u" by force
    with Cons.prems(4) have "t \<notin> set ?B1" by (simp add: set_Set_add)
    from Cons.IH [OF r d i this] show ?thesis .
  qed
qed

lemma triangleCandidates_loop_ok:
  "\<forall>v \<in> set vs. map_of v2t v \<noteq> None \<Longrightarrow>
     \<exists>cands. triangleCandidates_loop v2t vs acc = Inr cands \<and>
       set cands = set acc \<union> (\<Union>v \<in> set vs. set (get_or_new v2t v))"
proof (induction vs arbitrary: acc)
  case Nil
  then show ?case by simp
next
  case (Cons v vs)
  from Cons.prems obtain ts where ts: "map_of v2t v = Some ts" by auto
  from Cons.prems have "\<forall>v \<in> set vs. map_of v2t v \<noteq> None" by simp
  from Cons.IH [OF this, of "add_each ts acc"] ts show ?case
    by (auto simp: set_add_each get_or_new_def)
qed

lemma sharedVertices_map_ok:
  "\<forall>c \<in> set cs. map_of t2v c \<noteq> None \<Longrightarrow> \<exists>r. sharedVertices_map t2v vs cs = Inr r"
proof (induction cs)
  case Nil
  then show ?case by simp
next
  case (Cons c cs)
  then obtain vc r where "map_of t2v c = Some vc" "sharedVertices_map t2v vs cs = Inr r"
    by auto
  then show ?case by simp
qed

lemma sharedVertices_map_mem:
  "sharedVertices_map t2v vs cs = Inr r \<Longrightarrow> c \<in> set cs \<Longrightarrow> map_of t2v c = Some vc \<Longrightarrow>
     (intersectionOfSets vc vs, c) \<in> set r"
  by (induction cs arbitrary: r) (auto split: option.splits sum.splits)

lemma in_fst_set: "u \<in> fst ` S \<longleftrightarrow> (\<exists>b. (u, b) \<in> S)"
  by force

lemma spec_edge_neighbours_iff:
  "u \<in> set (spec_edge_neighbours t2v t vs) \<longleftrightarrow>
     (\<exists>us. (u, us) \<in> set t2v \<and> u \<noteq> t \<and> set us \<inter> set vs \<noteq> {} \<and>
           card (set us \<inter> set vs) = 2)"
  by (simp add: spec_edge_neighbours_def spec_candidates_def in_fst_set conj_ac)

text \<open>
  For dual mappings the candidates the code collects are the triangles that share a
  vertex with the triangle, and the list of line 148 holds exactly the edge neighbours
  of the spec.
\<close>

lemma edge_neighbours_of_code:
  assumes tri: "triangulation t2v" and dual: "dual_ok t2v v2t" and tv: "(t, vs) \<in> set t2v"
  shows "\<exists>cands two. triangleCandidates_loop v2t vs [] = Inr cands \<and>
           trianglesWithTwoSharedVertices t2v vs cands = Inr two \<and>
           set (map snd two) = set (spec_edge_neighbours t2v t vs) \<and>
           length two = length (spec_edge_neighbours t2v t vs)"
proof -
  from tri have dk: "distinct (map fst t2v)" by (simp add: triangulation_def)
  from tri have ok: "\<And>u us. (u, us) \<in> set t2v \<Longrightarrow> triangle_ok t2v us"
    by (auto simp: triangulation_def list_all_iff)
  from ok [OF tv] have dvs: "distinct vs" and lvs: "length vs = 3"
    by (auto simp: triangle_ok_def)
  have reg1: "\<And>u us v. (u, us) \<in> set t2v \<Longrightarrow> v \<in> set us \<Longrightarrow>
      \<exists>ts. map_of v2t v = Some ts \<and> u \<in> set ts"
    using dual by (fastforce simp: dual_ok_def list_all_iff registered_def split: option.splits)
  have reg2: "\<And>v ts u. map_of v2t v = Some ts \<Longrightarrow> u \<in> set ts \<Longrightarrow>
      \<exists>us. (u, us) \<in> set t2v \<and> v \<in> set us"
  proof -
    fix v ts u assume m: "map_of v2t v = Some ts" and u: "u \<in> set ts"
    from m have "(v, ts) \<in> set v2t" by (rule map_of_SomeD)
    with dual u have "registered t2v u v" by (fastforce simp: dual_ok_def list_all_iff)
    then show "\<exists>us. (u, us) \<in> set t2v \<and> v \<in> set us"
      by (auto simp: registered_def split: option.splits dest: map_of_SomeD)
  qed
  have "\<forall>v \<in> set vs. map_of v2t v \<noteq> None" using reg1 [OF tv] by auto
  from triangleCandidates_loop_ok [OF this, of "[]"] obtain cands where
    c: "triangleCandidates_loop v2t vs [] = Inr cands"
    and sc: "set cands = (\<Union>v \<in> set vs. set (get_or_new v2t v))" by auto
  from triangleCandidates_loop_distinct [OF c] have dc: "distinct cands" by simp
  have cand_iff: "\<And>u. u \<in> set cands \<longleftrightarrow> (\<exists>us. (u, us) \<in> set t2v \<and> set us \<inter> set vs \<noteq> {})"
  proof
    fix u assume "u \<in> set cands"
    with sc obtain v where v: "v \<in> set vs" "u \<in> set (get_or_new v2t v)" by auto
    then obtain ts where "map_of v2t v = Some ts" "u \<in> set ts"
      by (cases "map_of v2t v") (auto simp: get_or_new_def)
    from reg2 [OF this] v(1) show "\<exists>us. (u, us) \<in> set t2v \<and> set us \<inter> set vs \<noteq> {}" by auto
  next
    fix u assume "\<exists>us. (u, us) \<in> set t2v \<and> set us \<inter> set vs \<noteq> {}"
    then obtain us v where us: "(u, us) \<in> set t2v" "v \<in> set us" "v \<in> set vs" by auto
    from reg1 [OF us(1,2)] obtain ts where "map_of v2t v = Some ts" "u \<in> set ts" by auto
    then have "u \<in> set (get_or_new v2t v)" by (simp add: get_or_new_def)
    with sc us(3) show "u \<in> set cands" by blast
  qed
  have "\<forall>u \<in> set cands. map_of t2v u \<noteq> None"
  proof
    fix u assume "u \<in> set cands"
    with cand_iff obtain us where "(u, us) \<in> set t2v" by blast
    with dk have "map_of t2v u = Some us" by simp
    then show "map_of t2v u \<noteq> None" by simp
  qed
  from sharedVertices_map_ok [OF this, of vs] obtain r where
    r: "sharedVertices_map t2v vs cands = Inr r" by auto
  define two where "two = filter (\<lambda>cand. length (fst cand) = 2) r"
  from r have w: "trianglesWithTwoSharedVertices t2v vs cands = Inr two"
    by (simp add: trianglesWithTwoSharedVertices_def two_def)
  note facts = two_shared_facts [OF w dc]
  have self: "card (set vs \<inter> set vs) = 3" using dvs lvs by (simp add: distinct_card)
  have "snd ` set two = set (spec_edge_neighbours t2v t vs)"
  proof (intro set_eqI iffI)
    fix u assume "u \<in> snd ` set two"
    then obtain sh where in2: "(sh, u) \<in> set two" by auto
    from facts(2) [OF in2] obtain us where
      us: "map_of t2v u = Some us" "sh = intersectionOfSets us vs" "length sh = 2" by blast
    from us(1) have inT: "(u, us) \<in> set t2v" by (rule map_of_SomeD)
    from ok [OF inT] have "distinct us" by (simp add: triangle_ok_def)
    with card_shared [of us vs] us have card2: "card (set us \<inter> set vs) = 2" by simp
    have "u \<noteq> t"
    proof
      assume "u = t"
      with inT tv dk have "us = vs" by (meson eq_key_imp_eq_value)
      with card2 self show False by simp
    qed
    moreover from card2 have "set us \<inter> set vs \<noteq> {}" by auto
    ultimately show "u \<in> set (spec_edge_neighbours t2v t vs)"
      using inT card2 unfolding spec_edge_neighbours_iff by blast
  next
    fix u assume "u \<in> set (spec_edge_neighbours t2v t vs)"
    then obtain us where us: "(u, us) \<in> set t2v" "set us \<inter> set vs \<noteq> {}"
      "card (set us \<inter> set vs) = 2"
      unfolding spec_edge_neighbours_iff by blast
    from us(1,2) cand_iff have uc: "u \<in> set cands" by blast
    from us(1) dk have m: "map_of t2v u = Some us" by simp
    from ok [OF us(1)] have "distinct us" by (simp add: triangle_ok_def)
    with card_shared [of us vs] us(3) have "length (intersectionOfSets us vs) = 2" by simp
    with sharedVertices_map_mem [OF r uc m] have "(intersectionOfSets us vs, u) \<in> set two"
      by (simp add: two_def)
    then show "u \<in> snd ` set two" by force
  qed
  then have eq: "set (map snd two) = set (spec_edge_neighbours t2v t vs)" by simp
  have "distinct (spec_edge_neighbours t2v t vs)"
    unfolding spec_edge_neighbours_def spec_candidates_def
    using dk by (simp add: distinct_map_filter)
  with eq facts(1) have "length (map snd two) = length (spec_edge_neighbours t2v t vs)"
    by (metis distinct_card)
  with c w eq show ?thesis by auto
qed

lemma borderTriangles_loop_ok:
  assumes "\<forall>(t, vs) \<in> set es. \<exists>cands two. triangleCandidates_loop v2t vs [] = Inr cands \<and>
      trianglesWithTwoSharedVertices t2v vs cands = Inr two"
  shows "\<exists>B' m'. borderTriangles_loop t2v v2t es (B, m) = Inr (B', m')"
  using assms
proof (induction es arbitrary: B m)
  case Nil
  then show ?case by simp
next
  case (Cons e es)
  obtain u us where e: "e = (u, us)" by (cases e)
  from Cons.prems e obtain cands two where
    c: "triangleCandidates_loop v2t us [] = Inr cands"
    and w: "trianglesWithTwoSharedVertices t2v us cands = Inr two" by auto
  from Cons.prems have rest: "\<forall>(t, vs) \<in> set es. \<exists>cands two.
      triangleCandidates_loop v2t vs [] = Inr cands \<and>
      trianglesWithTwoSharedVertices t2v vs cands = Inr two" by simp
  show ?case
  proof (cases "length two < 3")
    case True
    with Cons.IH [OF rest, of "Set_add u B" "Map_set u cands m"] e c w show ?thesis by simp
  next
    case False
    with Cons.IH [OF rest, of B m] e c w show ?thesis by simp
  qed
qed

text \<open>The mappings that \<^verbatim>\<open>_setupAi\<close> builds from the flat array are dual.\<close>

lemma rel_of_Map_set:
  "rel_of (Map_set k (Set_add x (get_or_new m k)) m) = insert (k, x) (rel_of m)"
  by (auto simp: rel_of_def registered_def map_of_Map_set set_Set_add get_or_new_def
      split: option.splits if_splits)

lemma dual_loop_inv:
  "dual_loop i ts (v2t, t2v) = (v2t', t2v') \<Longrightarrow>
   distinct (map fst v2t) \<Longrightarrow> distinct (map fst t2v) \<Longrightarrow> rel_of t2v = (rel_of v2t)\<inverse> \<Longrightarrow>
     distinct (map fst v2t') \<and> distinct (map fst t2v') \<and> rel_of t2v' = (rel_of v2t')\<inverse>"
proof (induction ts arbitrary: i v2t t2v)
  case Nil
  then show ?case by simp
next
  case (Cons v ts)
  let ?v2t = "Map_set v (Set_add (i div 3) (get_or_new v2t v)) v2t"
  let ?t2v = "Map_set (i div 3) (Set_add v (get_or_new t2v (i div 3))) t2v"
  from Cons.prems(1) have r: "dual_loop (Suc i) ts (?v2t, ?t2v) = (v2t', t2v')"
    by (simp add: Let_def)
  have "rel_of ?t2v = (rel_of ?v2t)\<inverse>"
    using Cons.prems(4) by (auto simp: rel_of_Map_set)
  from Cons.IH [OF r distinct_Map_set [OF Cons.prems(2)] distinct_Map_set [OF Cons.prems(3)] this]
  show ?case .
qed

lemma dual_ok_of_rel:
  assumes "distinct (map fst v2t)" "distinct (map fst t2v)" "rel_of t2v = (rel_of v2t)\<inverse>"
  shows "dual_ok t2v v2t"
proof -
  have a: "\<And>t vs v. (t, vs) \<in> set t2v \<Longrightarrow> v \<in> set vs \<Longrightarrow> registered v2t v t"
  proof -
    fix t vs v assume "(t, vs) \<in> set t2v" "v \<in> set vs"
    with assms(2) have "(t, v) \<in> rel_of t2v" by (simp add: rel_of_def registered_def)
    with assms(3) show "registered v2t v t" by (auto simp: rel_of_def)
  qed
  have b: "\<And>v ts t. (v, ts) \<in> set v2t \<Longrightarrow> t \<in> set ts \<Longrightarrow> registered t2v t v"
  proof -
    fix v ts t assume "(v, ts) \<in> set v2t" "t \<in> set ts"
    with assms(1) have "(v, t) \<in> rel_of v2t" by (simp add: rel_of_def registered_def)
    with assms(3) show "registered t2v t v" by (auto simp: rel_of_def)
  qed
  from a b show ?thesis
    by (fastforce simp: dual_ok_def list_all_iff)
qed

lemma dual_mappings_ok:
  "dual_ok (snd (dual_mappings triangles)) (fst (dual_mappings triangles))"
proof -
  obtain v2t t2v where d: "dual_loop 0 triangles ([], []) = (v2t, t2v)"
    by (cases "dual_loop 0 triangles ([], [])")
  have "rel_of [] = (rel_of [])\<inverse>" by (simp add: rel_of_def registered_def)
  with dual_loop_inv [OF d] have "distinct (map fst v2t)" "distinct (map fst t2v)"
    "rel_of t2v = (rel_of v2t)\<inverse>" by simp_all
  from dual_ok_of_rel [OF this] d show ?thesis by (simp add: dual_mappings_def)
qed

text \<open>
  C6: in a triangulation with its dual mappings, the first loop of
  \<^verbatim>\<open>_computeBorderVertices\<close> returns; a triangle has at most three edge-sharing
  neighbours (triangles other than itself that share exactly two vertices with it); and
  the loop puts the triangle into \<^verbatim>\<open>borderTriangles\<close> exactly when it has fewer than
  three of them.
\<close>

theorem border_classification:
  assumes "triangulation t2v"
    and "dual_ok t2v v2t"
    and "(t, vs) \<in> set t2v"
  shows "\<exists>bts m. borderTriangles t2v v2t = Inr (bts, m) \<and>
           length (spec_edge_neighbours t2v t vs) \<le> 3 \<and>
           (t \<in> set bts \<longleftrightarrow> spec_boundary_triangle t2v t vs)"
proof -
  from assms(1) have dk: "distinct (map fst t2v)" by (simp add: triangulation_def)
  have "\<forall>(u, us) \<in> set t2v. \<exists>cands two. triangleCandidates_loop v2t us [] = Inr cands \<and>
      trianglesWithTwoSharedVertices t2v us cands = Inr two"
    using edge_neighbours_of_code [OF assms(1,2)] by blast
  from borderTriangles_loop_ok [OF this, of "[]" "[]"] obtain bts m where
    b: "borderTriangles t2v v2t = Inr (bts, m)"
    by (auto simp: borderTriangles_def)
  then have l: "borderTriangles_loop t2v v2t t2v ([], []) = Inr (bts, m)"
    by (simp add: borderTriangles_def)
  from edge_neighbours_of_code [OF assms] obtain cands two where
    c: "triangleCandidates_loop v2t vs [] = Inr cands"
    and w: "trianglesWithTwoSharedVertices t2v vs cands = Inr two"
    and n: "length two = length (spec_edge_neighbours t2v t vs)" by blast
  from borderTriangles_loop_classifies [OF l dk assms(3)] c w
  have "t \<in> set bts \<longleftrightarrow> length two < 3" by auto
  moreover from triangleCandidates_loop_distinct [OF c] have "distinct cands" by simp
  from edge_neighbours_le_3 [OF assms(1,3) w this] have "length two \<le> 3" .
  ultimately show ?thesis using b n by (auto simp: spec_boundary_triangle_def)
qed

text \<open>
  The square of the spec: four points, two triangles that share the diagonal from point 0
  to point 2. Both triangles are boundary triangles and all four points boundary points.
\<close>

lemma square_maps:
  "dual_mappings [0, 1, 2, 0, 2, 3]
     = ([(0, [0, 1]), (1, [0]), (2, [0, 1]), (3, [1])], [(0, [0, 1, 2]), (1, [0, 2, 3])])"
  by code_simp

lemma square_borderTriangles:
  "borderTriangles [(0, [0, 1, 2]), (1, [0, 2, 3])] [(0, [0, 1]), (1, [0]), (2, [0, 1]), (3, [1])]
     = Inr ([0, 1], [(0, [0, 1]), (1, [0, 1])])"
  by code_simp

lemma square_borderVertices:
  "computeBorderVertices [(0, [0, 1, 2]), (1, [0, 2, 3])]
       [(0, [0, 1]), (1, [0]), (2, [0, 1]), (3, [1])]
     = Inr [0, 1, 2, 3]"
  by code_simp

text \<open>
  The six points of \<^const>\<open>star_t2v\<close>: the inner triangle has three edge neighbours
  and is no boundary triangle; each outer triangle has one and is a boundary triangle.
\<close>

lemma star_maps:
  "star_t2v = [(0, [0, 1, 2]), (1, [0, 1, 3]), (2, [1, 2, 4]), (3, [0, 2, 5])]"
  "star_v2t = [(0, [0, 1, 3]), (1, [0, 1, 2]), (2, [0, 2, 3]), (3, [1]), (4, [2]), (5, [3])]"
  by code_simp+

lemma star_triangulation: "triangulation star_t2v"
  by code_simp

lemma star_dual_ok: "dual_ok star_t2v star_v2t"
  by code_simp

lemma star_borderTriangles:
  "borderTriangles star_t2v star_v2t
     = Inr ([1, 2, 3], [(1, [0, 1, 3, 2]), (2, [0, 1, 2, 3]), (3, [0, 1, 3, 2])])"
  by code_simp

lemma star_edge_neighbours:
  "spec_edge_neighbours star_t2v 0 [0, 1, 2] = [1, 2, 3]"
  "spec_edge_neighbours star_t2v 1 [0, 1, 3] = [0]"
  by code_simp+

text \<open>
  The bound needs a triangulation: where three triangles lie around the edge from point
  0 to point 1, triangle 0 has four candidates that share two vertices with it.
\<close>

lemma four_edge_neighbours:
  "\<not> triangulation [(0, [0, 1, 2]), (1, [0, 1, 3]), (2, [0, 1, 4]), (3, [1, 2, 5]), (4, [0, 2, 6])] \<and>
   trianglesWithTwoSharedVertices
       [(0, [0, 1, 2]), (1, [0, 1, 3]), (2, [0, 1, 4]), (3, [1, 2, 5]), (4, [0, 2, 6])]
       [0, 1, 2] [0, 1, 2, 4, 3]
     = Inr [([0, 1], 1), ([0, 1], 2), ([0, 2], 4), ([1, 2], 3)]"
  by code_simp

theorem border_classification_witness:
  "triangulation star_t2v \<and> dual_ok star_t2v star_v2t \<and>
   borderTriangles star_t2v star_v2t
     = Inr ([1, 2, 3], [(1, [0, 1, 3, 2]), (2, [0, 1, 2, 3]), (3, [0, 1, 3, 2])]) \<and>
   length (spec_edge_neighbours star_t2v 0 [0, 1, 2]) \<le> 3 \<and>
   (0 \<in> set [1, 2, 3::nat]) = spec_boundary_triangle star_t2v 0 [0, 1, 2] \<and>
   length (spec_edge_neighbours star_t2v 1 [0, 1, 3]) \<le> 3 \<and>
   (1 \<in> set [1, 2, 3::nat]) = spec_boundary_triangle star_t2v 1 [0, 1, 3]"
proof -
  have h0: "(0, [0, 1, 2]) \<in> set star_t2v" and h1: "(1, [0, 1, 3]) \<in> set star_t2v"
    by (simp_all add: star_maps)
  from border_classification [OF star_triangulation star_dual_ok h0]
    border_classification [OF star_triangulation star_dual_ok h1]
    star_triangulation star_dual_ok star_borderTriangles
  show ?thesis by simp
qed


section \<open>The edges of the logistics graph\<close>

text \<open>
  What follows does not depend on how the unmarked set was filled: it holds for the loop
  started in any state in which no vertex of the queue is unmarked.
\<close>

lemma edges_Cons: "edges ((k, xs) # L) = map (Pair k) xs @ edges L"
  by (simp add: edges_def)

lemma edges_member: "map_of L s = Some cs \<Longrightarrow> c \<in> set cs \<Longrightarrow> (s, c) \<in> set (edges L)"
  by (induction L) (auto simp: edges_Cons edges_def split: if_splits)

lemma edges_add_connection:
  "set (edges (add_connection (a, b) L)) = insert (a, b) (set (edges L))"
proof (induction L)
  case Nil
  then show ?case
    by (simp add: add_connection_def Map_set_def get_or_new_def Set_add_def edges_def)
next
  case (Cons e L)
  obtain k xs where e: "e = (k, xs)" by (cases e)
  show ?case
  proof (cases "k = a")
    case True
    with e show ?thesis
      by (auto simp: add_connection_def Map_set_def get_or_new_def edges_Cons set_Set_add)
  next
    case False
    with e Cons.IH show ?thesis
      by (auto simp: add_connection_def Map_set_def get_or_new_def edges_Cons)
  qed
qed

lemma distinct_add_connection:
  "distinct (map snd (edges L)) \<Longrightarrow> b \<notin> snd ` set (edges L) \<Longrightarrow>
     distinct (map snd (edges (add_connection (a, b) L)))"
proof (induction L)
  case Nil
  then show ?case
    by (simp add: add_connection_def Map_set_def get_or_new_def Set_add_def edges_def)
next
  case (Cons e L)
  obtain k xs where e: "e = (k, xs)" by (cases e)
  show ?case
  proof (cases "k = a")
    case True
    with e Cons.prems show ?thesis
      by (auto simp: add_connection_def Map_set_def get_or_new_def edges_Cons Set_add_def
          comp_def image_iff)
  next
    case False
    from Cons.prems e have d: "distinct (map snd (edges L))" and n: "b \<notin> snd ` set (edges L)"
      by (auto simp: edges_Cons)
    from Cons.prems e have x: "distinct xs" "b \<notin> set xs"
      "set xs \<inter> snd ` set (edges L) = {}"
      by (force simp: edges_Cons comp_def)+
    have "snd ` set (edges (add_connection (a, b) L)) = insert b (snd ` set (edges L))"
      by (simp add: edges_add_connection)
    with x have "set xs \<inter> snd ` set (edges (add_connection (a, b) L)) = {}" by auto
    moreover from False e have "add_connection (a, b) (e # L) = (k, xs) # add_connection (a, b) L"
      by (simp add: add_connection_def Map_set_def get_or_new_def)
    ultimately show ?thesis using Cons.IH [OF d n] x
      by (simp add: edges_Cons comp_def)
  qed
qed

lemma findNext_claims:
  "findNextLogisticsConnection n V L U s = Some (Inr (Some (a, b), U')) \<Longrightarrow>
     Idx s \<notin> set U \<Longrightarrow> (\<forall>e \<in> set (edges L). Idx (snd e) \<notin> set U) \<Longrightarrow>
     Idx b \<in> set U \<and> U' = Set_delete (Idx b) U \<and> Idx a \<notin> set U"
  "findNext_connected n V L U cs = Some (Inr (Some (a, b), U')) \<Longrightarrow>
     (\<forall>c \<in> set cs. Idx c \<notin> set U) \<Longrightarrow> (\<forall>e \<in> set (edges L). Idx (snd e) \<notin> set U) \<Longrightarrow>
     Idx b \<in> set U \<and> U' = Set_delete (Idx b) U \<and> Idx a \<notin> set U"
proof (induction n V L U s and n V L U cs arbitrary: a b U' and a b U'
    rule: findNextLogisticsConnection_findNext_connected.induct)
  case (1 V L U startingVertex)
  then show ?case by simp
next
  case (2 n V L U startingVertex)
  from "2.prems"(1) obtain possibleConnections where
    pc: "map_of V startingVertex = Some possibleConnections"
    by (auto split: option.splits)
  show ?case
  proof (cases "truthy (find (\<lambda>v. Set_has U (Idx v)) possibleConnections)")
    case (Some direct)
    then have "find (\<lambda>v. Set_has U (Idx v)) possibleConnections = Some direct"
      by (auto simp: truthy_def split: option.splits if_splits)
    then have "Idx direct \<in> set U" by (auto simp: find_Some_iff)
    with "2.prems"(1,2) pc Some show ?thesis by auto
  next
    case None
    with "2.prems"(1) pc obtain cs where cs: "map_of L startingVertex = Some cs"
      and r: "findNext_connected n V L U cs = Some (Inr (Some (a, b), U'))"
      by (auto split: option.splits)
    have "\<forall>c \<in> set cs. Idx c \<notin> set U"
    proof
      fix c assume "c \<in> set cs"
      from edges_member [OF cs this] "2.prems"(3) show "Idx c \<notin> set U" by auto
    qed
    from "2.IH" [OF pc None cs r this "2.prems"(3)] show ?thesis .
  qed
next
  case (3 n V L U)
  then show ?case by simp
next
  case (4 n V L U c cs)
  from "4.prems"(1) obtain res where res: "findNextLogisticsConnection n V L U c = Some res"
    by (auto split: option.splits)
  from "4.prems"(1) res obtain r1 U1 where pr: "res = Inr (r1, U1)"
    by (cases res) auto
  show ?case
  proof (cases r1)
    case (Some c1)
    with "4.prems"(1) res pr have "findNextLogisticsConnection n V L U c
        = Some (Inr (Some (a, b), U'))" by auto
    from "4.IH"(1) [OF this] "4.prems"(2,3) show ?thesis by simp
  next
    case None
    with res pr findNext_unmarked(1) [of n V L U c None U1] have u: "U1 = U" by simp
    from "4.prems"(1) res pr None u have
      r: "findNext_connected n V L U cs = Some (Inr (Some (a, b), U'))" by simp
    have "findNext_connected n V L U1 cs = Some (Inr (Some (a, b), U')) \<Longrightarrow>
        (\<forall>c \<in> set cs. Idx c \<notin> set U1) \<Longrightarrow> (\<forall>e \<in> set (edges L). Idx (snd e) \<notin> set U1) \<Longrightarrow>
        Idx b \<in> set U1 \<and> U' = Set_delete (Idx b) U1 \<and> Idx a \<notin> set U1"
      using "4.IH"(2) [OF res pr refl None, of a b U'] by simp
    with u r "4.prems"(2,3) show ?thesis by simp
  qed
qed



lemma logistics_inv_step_none:
  assumes "logistics_inv (U, L, Q)" and "Heap_dequeue Q = Some (item, Q')"
  shows "logistics_inv (U, L, Q')"
proof -
  from assms(2) have "set Q' \<subseteq> set Q"
    by (cases Q) (auto simp: Heap_dequeue_def Let_def dest: notin_set_remove1 split: if_splits)
  with assms(1) show ?thesis
    by (auto simp: logistics_inv_def list_all_iff)
qed

lemma logistics_inv_step_some:
  assumes inv: "logistics_inv (U, L, Q)" and d: "Heap_dequeue Q = Some (item, Q')"
    and f: "findNextLogisticsConnection n V L U (vertex item) = Some (Inr (Some c, U'))"
  shows "logistics_inv (U', add_connection c L, Heap_insert \<lparr>score = s, vertex = vertex item\<rparr> Q')"
proof -
  obtain a b where c: "c = (a, b)" by (cases c)
  from Heap_dequeue_first [OF d] have "item \<in> set Q" by simp
  with inv have s: "Idx (vertex item) \<notin> set U"
    by (auto simp: logistics_inv_def list_all_iff)
  from inv have e: "\<forall>e \<in> set (edges L). Idx (snd e) \<notin> set U"
    by (auto simp: logistics_inv_def list_all_iff)
  from findNext_claims(1) [OF f [unfolded c] s e] have
    b: "Idx b \<in> set U" and u: "U' = Set_delete (Idx b) U" and a: "Idx a \<notin> set U"
    by auto
  from a b have ab: "a \<noteq> b" by auto
  from b e have nb: "b \<notin> snd ` set (edges L)" by auto
  from u have sub: "set U' = set U - {Idx b}" by (auto simp: Set_delete_def)
  from d have q: "set Q' \<subseteq> set Q"
    by (cases Q) (auto simp: Heap_dequeue_def Let_def dest: notin_set_remove1 split: if_splits)
  have "no_self_edges (add_connection (a, b) L)"
    using inv ab by (auto simp: logistics_inv_def no_self_edges_def list_all_iff edges_add_connection)
  moreover have "claimed_once (add_connection (a, b) L)"
    using inv nb by (auto simp: logistics_inv_def claimed_once_def intro: distinct_add_connection)
  moreover have "list_all (\<lambda>e. Idx (snd e) \<notin> set U') (edges (add_connection (a, b) L))"
    using e sub by (auto simp: list_all_iff edges_add_connection)
  moreover have "list_all (\<lambda>q. Idx (vertex q) \<notin> set U')
      (Heap_insert \<lparr>score = s, vertex = vertex item\<rparr> Q')"
    using inv q s sub by (auto simp: logistics_inv_def list_all_iff Heap_insert_def)
  ultimately show ?thesis by (simp add: logistics_inv_def c)
qed

lemma logistics_pass_inv:
  assumes "logistics_pass n G V st = Some (Inr st')" and "logistics_inv st"
  shows "logistics_inv st'"
proof -
  obtain U L Q where st: "st = (U, L, Q)" by (cases st)
  obtain U' L' Q' where st': "st' = (U', L', Q')" by (cases st')
  note run = assms(1) [unfolded st st']
  from run obtain item Q0 where d: "Heap_dequeue Q = Some (item, Q0)"
    by (auto simp: logistics_pass_def split: option.splits)
  from run d obtain oldScore where sc: "g_score G = Some oldScore"
    by (auto simp: logistics_pass_def Let_def split: option.splits)
  from run d sc obtain r U1 where
    f: "findNextLogisticsConnection n V L U (vertex item) = Some (Inr (r, U1))"
    by (auto simp: logistics_pass_def Let_def split: option.splits sum.splits)
  show ?thesis
  proof (cases r)
    case None
    with findNext_unmarked(1) [of n V L U "vertex item" None U1] f have "U1 = U" by simp
    with run d sc f None have "st' = (U, L, Q0)"
      by (simp add: logistics_pass_def Let_def st')
    with logistics_inv_step_none [OF assms(2) [unfolded st] d] show ?thesis by simp
  next
    case (Some c)
    with run d sc f have "st' = (U1, add_connection c L,
        Heap_insert \<lparr>score = js_mul oldScore (Num 0.5), vertex = vertex item\<rparr> Q0)"
      by (simp add: logistics_pass_def Let_def st')
    with logistics_inv_step_some [OF assms(2) [unfolded st] d f [unfolded Some]]
    show ?thesis by simp
  qed
qed

lemma logistics_loop_edges:
  "logistics_loop n G V st = Some (Inr L') \<Longrightarrow> logistics_inv st \<Longrightarrow>
     no_self_edges L' \<and> claimed_once L'"
proof (induction n G V st rule: logistics_loop.induct)
  case (1 n G V U L Q)
  note run = "1.prems"(1) [unfolded logistics_loop.simps [of n G V U L Q]]
  show ?case
  proof (cases "length U \<noteq> 0 \<and> length Q \<noteq> 0")
    case False
    with run have "L' = L" by (auto split: if_splits)
    with "1.prems"(2) show ?thesis by (simp add: logistics_inv_def)
  next
    case True
    with run obtain st' where p: "logistics_pass n G V (U, L, Q) = Some (Inr st')"
      and r: "logistics_loop n G V st' = Some (Inr L')"
      by (auto split: option.splits sum.splits)
    have t: "\<not> \<not> (length U \<noteq> 0 \<and> length Q \<noteq> 0)" using True by simp
    from "1.IH" [OF t p refl r logistics_pass_inv [OF p "1.prems"(2)]]
    show ?thesis .
  qed
qed

text \<open>
  C4: the graph that \<^verbatim>\<open>_createLogisticsGraph\<close> returns has no edge from a point to
  itself, and no point is the destination of two edges. The same holds of the graph that
  the loop of lines 210 to 224 returns from the empty graph and any unmarked set that
  holds no vertex of the queue.
\<close>

theorem createLogisticsGraph_edges:
  "(createLogisticsGraph n G V Q = Some (Inr L) \<longrightarrow> no_self_edges L \<and> claimed_once L) \<and>
   (logistics_loop n G V (U, [], Q) = Some (Inr L') \<and>
    list_all (\<lambda>q. Idx (vertex q) \<notin> set U) Q \<longrightarrow> no_self_edges L' \<and> claimed_once L')"
proof (rule conjI; rule impI)
  assume "createLogisticsGraph n G V Q = Some (Inr L)"
  then obtain U0 where u: "unmarkedVertices_loop G V [] = Inr U0"
    and r: "logistics_loop n G V (U0, [], Q) = Some (Inr L)"
    by (auto simp: createLogisticsGraph_def split: sum.splits)
  from unmarkedVertices_loop_no_Idx [OF u] have "\<forall>v. Idx v \<notin> set U0" by simp
  then have "logistics_inv (U0, [], Q)"
    by (simp add: logistics_inv_def no_self_edges_def claimed_once_def edges_def list_all_iff)
  with r show "no_self_edges L \<and> claimed_once L" by (rule logistics_loop_edges)
next
  assume a: "logistics_loop n G V (U, [], Q) = Some (Inr L') \<and>
    list_all (\<lambda>q. Idx (vertex q) \<notin> set U) Q"
  then have "logistics_inv (U, [], Q)"
    by (simp add: logistics_inv_def no_self_edges_def claimed_once_def edges_def)
  moreover from a have "logistics_loop n G V (U, [], Q) = Some (Inr L')" by simp
  ultimately show "no_self_edges L' \<and> claimed_once L'"
    using logistics_loop_edges [of n G V "(U, [], Q)" L'] by simp
qed

theorem createLogisticsGraph_edges_witness:
  "createLogisticsGraph (Suc 0) example_globals [(0, [0, 1]), (1, [0, 1])] [] = Some (Inr []) \<and>
   logistics_loop (Suc 0) example_globals [(0, [0, 1, 2]), (1, [0, 1, 2]), (2, [0, 1, 2])]
       ([Idx 1, Idx 2], [], [\<lparr>score = Num 4, vertex = 0\<rparr>])
     = Some (Inr [(0, [1, 2])]) \<and>
   list_all (\<lambda>q. Idx (vertex q) \<notin> set [Idx 1, Idx 2]) [\<lparr>score = Num 4, vertex = 0\<rparr>] \<and>
   no_self_edges [(0, [1, 2])] \<and> claimed_once [(0, [1, 2])]"
proof -
  have h: "createLogisticsGraph (Suc 0) example_globals [(0, [0, 1]), (1, [0, 1])] []
      = Some (Inr [])"
    by (simp add: createLogisticsGraph_result example_globals_def)
  have q: "list_all (\<lambda>q. Idx (vertex q) \<notin> set [Idx 1, Idx 2]) [\<lparr>score = Num 4, vertex = 0\<rparr>]"
    by simp
  from createLogisticsGraph_edges
    [of "Suc 0" example_globals "[(0, [0, 1, 2]), (1, [0, 1, 2]), (2, [0, 1, 2])]"
      "[\<lparr>score = Num 4, vertex = 0\<rparr>]" _ "[Idx 1, Idx 2]" "[(0, [1, 2])]"]
    logistics_loop_example q h
  show ?thesis by simp
qed

end
